(* ===== verification/ECS_Prelude.thy ===== *)
theory ECS_Prelude
  imports Main "HOL-Library.Word"
begin



text \<open>
  Shared vocabulary of the development: the fault type that stands for every
  \<open>check\<close>/\<open>checkf\<close> of the sources, the raw-buffer model that stands for
  \<open>FMemory::Malloc/Realloc/Memmove\<close> together with the type-erased
  \<open>UScriptStruct\<close> operations (\<open>InitializeStruct\<close>, \<open>DestroyStruct\<close>,
  \<open>CopyScriptStruct\<close>), and the type descriptor record.  The lemma collections
  \<open>mem_simps\<close> and \<open>bm_simps\<close> carry the component proofs.
\<close>

named_theorems mem_simps "equations of the raw buffer model"

named_theorems bm_simps "equations of the word-array bit masks"

section \<open>Faults\<close>

text \<open>
  Every \<open>check\<close>, \<open>checkf\<close> and every access the C++ leaves undefined (out of
  range, destroying a dead value) is a fatal fault: a value of \<open>fault\<close> on the
  \<open>Inl\<close> side of a result.
\<close>

datatype fault =
    InvalidRow | InvalidColumn | InvalidIndex | InvalidEntity | InvalidArchetype
  | ColumnAlreadyInitialized | NoCompRow | BadCount | BadCopyCount
  | NoTypesRegistered | NullType | NotDerived | TypeNotRegistered
  | TypeMismatch | TypeUninitialized | OutOfBounds | DestroyDead | NullCopy
  | EmptyArray | BadPointer | OutOfMemory | ReadDead

type_synonym 'a checked = "fault + 'a"

text \<open>A loop over a list whose body may fault, stopping at the first fault
  (the shape of \<open>ForEachRow\<close> with a checking body).\<close>

fun map_checked :: "('a \<Rightarrow> 'b checked) \<Rightarrow> 'a list \<Rightarrow> 'b list checked" where
  "map_checked f [] = Inr []"
| "map_checked f (x # xs) =
     (case f x of
        Inl e \<Rightarrow> Inl e
      | Inr y \<Rightarrow> (case map_checked f xs of Inl e \<Rightarrow> Inl e | Inr ys \<Rightarrow> Inr (y # ys)))"

text \<open>Sequencing of two fallible steps: the first fault stops the sequence.\<close>

definition chk_bind :: "'a checked \<Rightarrow> ('a \<Rightarrow> 'b checked) \<Rightarrow> 'b checked" where
  "chk_bind r f = (case r of Inl e \<Rightarrow> Inl e | Inr x \<Rightarrow> f x)"

abbreviation INDEX_NONE :: int where
  "INDEX_NONE \<equiv> -1"

text \<open>\<open>FMath::DivideAndRoundUp\<close>.\<close>

definition div_round_up :: "nat \<Rightarrow> nat \<Rightarrow> nat" where
  "div_round_up a b = (a + b - 1) div b"

section \<open>Type descriptors\<close>

text \<open>
  The external \<open>UScriptStruct\<close>: its unique id (\<open>GetUniqueID\<close>), size
  (\<open>GetStructureSize\<close>), alignment (\<open>GetMinAlignment\<close>), the value its
  \<open>InitializeStruct\<close> constructs, and the ids of its super structs (for
  \<open>IsChildOf\<close>).  Pointer identity of descriptors is equality of the record.
\<close>

record 'v script_struct =
  ss_uid :: nat
  ss_size :: nat
  ss_align :: nat
  ss_default :: 'v
  ss_super :: "nat list"

definition is_child_of :: "'v script_struct \<Rightarrow> 'v script_struct \<Rightarrow> bool" where
  "is_child_of s base \<longleftrightarrow> s = base \<or> ss_uid base \<in> set (ss_super s)"

text \<open>The canonical order of component types: by size, then by unique id.\<close>

definition size_uid_key :: "'v script_struct \<Rightarrow> nat \<times> nat" where
  "size_uid_key s = (ss_size s, ss_uid s)"

section \<open>Raw buffers\<close>

text \<open>
  A raw buffer of a type-erased array is a list of slots, each either holding a
  live value or not constructed.  \<open>Malloc\<close> gives unconstructed slots,
  \<open>Realloc\<close> keeps the common prefix, \<open>Memmove\<close> copies the bytes of a
  range (the source slots keep their stale bytes).
\<close>

datatype 'v cell = Uninit | Live 'v

primrec is_live :: "'v cell \<Rightarrow> bool" where
  "is_live Uninit = False"
| "is_live (Live v) = True"

primrec cell_val :: "'v cell \<Rightarrow> 'v option" where
  "cell_val Uninit = None"
| "cell_val (Live v) = Some v"

definition mem_malloc :: "nat \<Rightarrow> 'v cell list" where
  "mem_malloc n = replicate n Uninit"

definition mem_realloc :: "'v cell list \<Rightarrow> nat \<Rightarrow> 'v cell list" where
  "mem_realloc cs n = take n cs @ replicate (n - length cs) Uninit"

definition mem_memmove :: "'v cell list \<Rightarrow> nat \<Rightarrow> nat \<Rightarrow> nat \<Rightarrow> 'v cell list" where
  "mem_memmove cs dst src n = take dst cs @ take n (drop src cs) @ drop (dst + n) cs"

text \<open>
  \<open>InitializeStruct(Ptr, N)\<close>, \<open>DestroyStruct(Ptr, N)\<close> and
  \<open>CopyScriptStruct(Dst, Src, N)\<close> at slot offset \<open>i\<close> (an \<open>int\<close>: the code
  computes offsets such as \<open>(Num - 1) * Size\<close>).  A range outside the buffer
  is \<open>OutOfBounds\<close>; destroying a slot that holds no live value is
  \<open>DestroyDead\<close>.
\<close>

definition in_buf :: "'v cell list \<Rightarrow> int \<Rightarrow> nat \<Rightarrow> bool" where
  "in_buf cs i n \<longleftrightarrow> 0 \<le> i \<and> nat i + n \<le> length cs"

definition mem_init :: "'v cell list \<Rightarrow> int \<Rightarrow> nat \<Rightarrow> 'v \<Rightarrow> 'v cell list checked" where
  "mem_init cs i n d =
     (if in_buf cs i n
      then Inr (take (nat i) cs @ replicate n (Live d) @ drop (nat i + n) cs)
      else Inl OutOfBounds)"

definition mem_destroy :: "'v cell list \<Rightarrow> int \<Rightarrow> nat \<Rightarrow> 'v cell list checked" where
  "mem_destroy cs i n =
     (if \<not> in_buf cs i n then Inl OutOfBounds
      else if \<not> list_all is_live (take n (drop (nat i) cs)) then Inl DestroyDead
      else Inr (take (nat i) cs @ replicate n Uninit @ drop (nat i + n) cs))"

definition mem_copy :: "'v cell list \<Rightarrow> int \<Rightarrow> 'v list \<Rightarrow> 'v cell list checked" where
  "mem_copy cs i vs =
     (if in_buf cs i (length vs)
      then Inr (take (nat i) cs @ map Live vs @ drop (nat i + length vs) cs)
      else Inl OutOfBounds)"

section \<open>Lemmas\<close>

lemma map_checked_Inr_iff [mem_simps]:
  "map_checked f xs = Inr ys \<longleftrightarrow> list_all2 (\<lambda>x y. f x = Inr y) xs ys"
proof (induction xs arbitrary: ys)
  case Nil
  then show ?case by auto
next
  case (Cons x xs)
  show ?case
  proof (cases "f x")
    case (Inl e)
    then show ?thesis by (cases ys) auto
  next
    case (Inr y)
    show ?thesis
    proof (cases "map_checked f xs")
      case (Inl e)
      then have "\<not> list_all2 (\<lambda>x y. f x = Inr y) xs ys'" for ys'
        using Cons.IH [of ys'] by auto
      with Inl Inr show ?thesis by (cases ys) auto
    next
      case (Inr ys')
      with \<open>f x = Inr y\<close> Cons.IH show ?thesis by (cases ys) auto
    qed
  qed
qed

lemma chk_bind_Inl [simp]: "chk_bind (Inl e) f = Inl e"
  by (simp add: chk_bind_def)

lemma chk_bind_Inr [simp]: "chk_bind (Inr x) f = f x"
  by (simp add: chk_bind_def)

lemma chk_bind_assoc [simp]:
  "chk_bind (chk_bind r f) g = chk_bind r (\<lambda>x. chk_bind (f x) g)"
  by (cases r) (auto simp: chk_bind_def)

lemma chk_bind_eq_Inr [mem_simps]:
  "chk_bind r f = Inr y \<longleftrightarrow> (\<exists>x. r = Inr x \<and> f x = Inr y)"
  by (cases r) (auto simp: chk_bind_def)

lemma map_checked_total:
  "(\<And>x. x \<in> set xs \<Longrightarrow> f x = Inr (g x)) \<Longrightarrow> map_checked f xs = Inr (map g xs)"
  by (induction xs) auto

lemma div_round_up_64_mono [simp]:
  "a \<le> b \<Longrightarrow> div_round_up a 64 \<le> div_round_up b 64"
  by (simp add: div_round_up_def div_le_mono)

lemma div_round_up_64_less:
  "i < n \<Longrightarrow> i div 64 < div_round_up n 64"
  by (simp add: div_round_up_def less_mult_imp_div_less)

lemma length_mem_malloc [mem_simps]: "length (mem_malloc n) = n"
  by (simp add: mem_malloc_def)

lemma length_mem_realloc [mem_simps]: "length (mem_realloc cs n) = n"
  by (simp add: mem_realloc_def)

lemma nth_mem_realloc [mem_simps]:
  "j < n \<Longrightarrow> mem_realloc cs n ! j = (if j < length cs then cs ! j else Uninit)"
  by (auto simp: mem_realloc_def nth_append)

lemma mem_realloc_nil [mem_simps]: "mem_realloc [] n = mem_malloc n"
  by (simp add: mem_realloc_def mem_malloc_def)

lemma length_mem_memmove [mem_simps]:
  "src + n \<le> length cs \<Longrightarrow> dst + n \<le> length cs \<Longrightarrow> length (mem_memmove cs dst src n) = length cs"
  by (simp add: mem_memmove_def)

lemma mem_init_Inr [mem_simps]:
  "0 \<le> i \<Longrightarrow> nat i + n \<le> length cs \<Longrightarrow>
   mem_init cs i n d = Inr (take (nat i) cs @ replicate n (Live d) @ drop (nat i + n) cs)"
  by (simp add: mem_init_def in_buf_def)

lemma mem_init_one [mem_simps]:
  "j < length cs \<Longrightarrow> mem_init cs (int j) (Suc 0) d = Inr (cs[j := Live d])"
  by (simp add: mem_init_def in_buf_def upd_conv_take_nth_drop)

lemma mem_copy_one [mem_simps]:
  "j < length cs \<Longrightarrow> mem_copy cs (int j) [v] = Inr (cs[j := Live v])"
  by (simp add: mem_copy_def in_buf_def upd_conv_take_nth_drop)

lemma mem_destroy_one [mem_simps]:
  "j < length cs \<Longrightarrow>
   mem_destroy cs (int j) (Suc 0) = (if is_live (cs ! j) then Inr (cs[j := Uninit]) else Inl DestroyDead)"
  by (simp add: mem_destroy_def in_buf_def upd_conv_take_nth_drop take_Suc_conv_app_nth)


lemma mem_init_append [mem_simps]:
  "mem_init (cs @ ds) (int (length cs)) (length ds) d = Inr (cs @ replicate (length ds) (Live d))"
  by (simp add: mem_init_def in_buf_def)

lemma mem_copy_append [mem_simps]:
  "length ds = length vs \<Longrightarrow> mem_copy (cs @ ds) (int (length cs)) vs = Inr (cs @ map Live vs)"
  by (simp add: mem_copy_def in_buf_def)

lemma mem_realloc_grow [mem_simps]:
  "length cs \<le> n \<Longrightarrow> mem_realloc cs n = cs @ replicate (n - length cs) Uninit"
  by (simp add: mem_realloc_def)

lemma mem_realloc_shrink [mem_simps]:
  "n \<le> length cs \<Longrightarrow> mem_realloc cs n = take n cs"
  by (simp add: mem_realloc_def)

lemma list_all_replicate_live [simp]: "list_all is_live (replicate n (Live v))"
  by (induction n) auto

lemma list_all_map_live [simp]: "list_all is_live (map Live vs)"
  by (induction vs) auto

lemma list_all_take [simp]: "list_all P xs \<Longrightarrow> list_all P (take n xs)"
  by (auto simp: list_all_iff dest: in_set_takeD)

lemma list_all_drop [simp]: "list_all P xs \<Longrightarrow> list_all P (drop n xs)"
  by (auto simp: list_all_iff dest: in_set_dropD)

lemma vals_live [simp]: "the \<circ> cell_val \<circ> Live = id"
  by (rule ext) simp

lemma live_vals: "list_all is_live cs \<Longrightarrow> map Live (map (the \<circ> cell_val) cs) = cs"
proof (induction cs)
  case (Cons c cs)
  then show ?case by (cases c) auto
qed simp

lemma mem_init_before_start: "i < 0 \<Longrightarrow> mem_init cs i n d = Inl OutOfBounds"
  by (simp add: mem_init_def in_buf_def)

lemma mem_destroy_before_start: "i < 0 \<Longrightarrow> mem_destroy cs i n = Inl OutOfBounds"
  by (simp add: mem_destroy_def in_buf_def)

lemma mem_destroy_live:
  "j + r \<le> length cs \<Longrightarrow> list_all is_live cs \<Longrightarrow>
   mem_destroy cs (int j) r = Inr (take j cs @ replicate r Uninit @ drop (j + r) cs)"
  by (auto simp: mem_destroy_def in_buf_def)

end
