(* ===== verification/Bitmask.thy ===== *)
theory Bitmask
  imports ECS_Prelude
begin

text \<open>
  The bit masks of \<open>FArchetype\<close> (\<open>InitializedColumnBitMask\<close>,
  \<open>IncludedCompTagBitMask\<close>) are raw arrays of 64-bit words
  (\<open>FBitElem\<close> on a 64-bit platform): here a list of \<open>64 word\<close>.  Bit \<open>i\<close>
  lives in word \<open>i div 64\<close> at position \<open>i mod 64\<close>.  The theory gives the
  single-bit read and write of \<open>Archetype.h\<close>, the \<open>TBitArray\<close> a signature
  is built in, the population count below a bit (\<open>GetCompRow\<close>), the
  word-at-a-time subset test (\<open>HasSameSetIdentifierFlags\<close>), the byte-wise
  \<open>Memcmp\<close> of \<open>InternalFindArchetypeID\<close> (little-endian byte order) and
  \<open>_BitScanForward64\<close>, each with its bit-level meaning.
\<close>

unbundle bit_operations_syntax

type_synonym bitelem = "64 word"

definition bit_words :: "nat \<Rightarrow> nat" where
  "bit_words n = div_round_up n 64"

definition bm_get :: "bitelem list \<Rightarrow> nat \<Rightarrow> bool" where
  "bm_get ws i \<longleftrightarrow> ws ! (i div 64) AND push_bit (i mod 64) 1 \<noteq> 0"

definition bm_set :: "bool \<Rightarrow> nat \<Rightarrow> bitelem list \<Rightarrow> bitelem list" where
  "bm_set b i ws =
     ws[i div 64 := (if b then ws ! (i div 64) OR push_bit (i mod 64) 1
                     else ws ! (i div 64) AND NOT (push_bit (i mod 64) 1))]"

text \<open>\<open>FMemory::MallocZeroed\<close> of the words for \<open>n\<close> bits, and a
  \<open>TBitArray<> Bitmask(false, n)\<close> with \<open>Bitmask[id] = true\<close> for each id.\<close>

definition bm_zeroed :: "nat \<Rightarrow> bitelem list" where
  "bm_zeroed n = replicate (bit_words n) 0"

definition bm_from_ids :: "nat \<Rightarrow> nat list \<Rightarrow> bitelem list" where
  "bm_from_ids n ids = fold (bm_set True) ids (bm_zeroed n)"

text \<open>The loop of \<open>GetCompRow\<close>: \<open>for (i = ID - 1; i >= 0; --i) Row += bit i\<close>.\<close>

primrec count_set_below :: "bitelem list \<Rightarrow> nat \<Rightarrow> nat \<Rightarrow> nat" where
  "count_set_below ws 0 acc = acc"
| "count_set_below ws (Suc i) acc = count_set_below ws i (acc + (if bm_get ws i then 1 else 0))"

text \<open>The loop of \<open>HasSameSetIdentifierFlags\<close> over the first \<open>End\<close> words.\<close>

definition words_subset :: "bitelem list \<Rightarrow> bitelem list \<Rightarrow> nat \<Rightarrow> bool" where
  "words_subset a b e \<longleftrightarrow> list_all (\<lambda>i. a ! i AND b ! i = a ! i) [0..<e]"

text \<open>Byte \<open>k\<close> of a word array in memory (little endian), and
  \<open>FMemory::Memcmp(A, B, N) == 0\<close>.\<close>

definition bm_byte :: "bitelem list \<Rightarrow> nat \<Rightarrow> 8 word" where
  "bm_byte ws k = ucast (drop_bit (8 * (k mod 8)) (ws ! (k div 8)))"

definition memcmp_eq :: "bitelem list \<Rightarrow> bitelem list \<Rightarrow> nat \<Rightarrow> bool" where
  "memcmp_eq a b n \<longleftrightarrow> list_all (\<lambda>k. bm_byte a k = bm_byte b k) [0..<n]"

text \<open>\<open>_BitScanForward64\<close>: the index of the lowest set bit, none for zero.\<close>

definition bit_scan_forward :: "bitelem \<Rightarrow> nat option" where
  "bit_scan_forward w = find (bit w) [0..<64]"

section \<open>Bit-level meaning\<close>

lemma bm_get_bit [bm_simps]: "bm_get ws i \<longleftrightarrow> bit (ws ! (i div 64)) (i mod 64)"
  by (simp add: bm_get_def bit_iff_and_push_bit_not_eq_0)

lemma bit_push_bit_one_64 [bm_simps]:
  "bit (push_bit n 1 :: bitelem) m \<longleftrightarrow> m = n \<and> n < 64"
  by (auto simp: bit_exp_iff)

lemma length_bm_set [bm_simps]: "length (bm_set b i ws) = length ws"
  by (simp add: bm_set_def)

lemma bm_get_set [bm_simps]:
  assumes "i div 64 < length ws"
  shows "bm_get (bm_set b i ws) j \<longleftrightarrow> (if j = i then b else bm_get ws j)"
proof (cases "j div 64 = i div 64")
  case True
  then have "j = i \<longleftrightarrow> j mod 64 = i mod 64"
    by (metis div_mult_mod_eq)
  with True assms show ?thesis
    by (auto simp: bm_set_def bm_get_bit bit_or_iff bit_and_iff bit_not_iff bit_exp_iff)
next
  case False
  then have "j \<noteq> i" by auto
  with False show ?thesis by (simp add: bm_set_def bm_get_bit)
qed

lemma length_bm_zeroed [bm_simps]: "length (bm_zeroed n) = bit_words n"
  by (simp add: bm_zeroed_def)

lemma bit_words_less [bm_simps]: "i < n \<Longrightarrow> i div 64 < bit_words n"
  by (simp add: bit_words_def div_round_up_64_less)

lemma bm_get_zeroed [bm_simps]: "i div 64 < bit_words n \<Longrightarrow> \<not> bm_get (bm_zeroed n) i"
  by (simp add: bm_zeroed_def bm_get_bit)

lemma length_bm_fold_set:
  "length (fold (bm_set b) ids ws) = length ws"
  by (induction ids arbitrary: ws) (simp_all add: length_bm_set)

lemma bm_get_fold_set:
  assumes "\<forall>k \<in> set ids. k div 64 < length ws"
  shows "bm_get (fold (bm_set True) ids ws) j \<longleftrightarrow> j \<in> set ids \<or> bm_get ws j"
  using assms
proof (induction ids arbitrary: ws)
  case Nil
  then show ?case by simp
next
  case (Cons k ids)
  have "\<forall>k' \<in> set ids. k' div 64 < length (bm_set True k ws)"
    using Cons.prems by (simp add: length_bm_set)
  with Cons show ?case by (auto simp: bm_get_set)
qed

lemma length_bm_from_ids [bm_simps]: "length (bm_from_ids n ids) = bit_words n"
  by (simp add: bm_from_ids_def length_bm_fold_set length_bm_zeroed)

lemma bm_get_from_ids [bm_simps]:
  assumes "\<forall>k \<in> set ids. k < n" and "j < n"
  shows "bm_get (bm_from_ids n ids) j \<longleftrightarrow> j \<in> set ids"
proof -
  have "\<forall>k \<in> set ids. k div 64 < length (bm_zeroed n)"
    using assms(1) by (simp add: length_bm_zeroed bit_words_less)
  then show ?thesis
    using assms(2) by (simp add: bm_from_ids_def bm_get_fold_set bm_get_zeroed bit_words_less)
qed

text \<open>Within the words of the mask, the set bits are exactly the ids.\<close>

lemma bm_get_from_ids_words:
  assumes "\<forall>k \<in> set ids. k < n" and "j div 64 < bit_words n"
  shows "bm_get (bm_from_ids n ids) j \<longleftrightarrow> j \<in> set ids"
proof -
  have "\<forall>k \<in> set ids. k div 64 < length (bm_zeroed n)"
    using assms(1) by (simp add: length_bm_zeroed bit_words_less)
  then show ?thesis
    using assms(2) by (simp add: bm_from_ids_def bm_get_fold_set bm_get_zeroed)
qed

lemma memcmp_eq_refl [bm_simps]: "memcmp_eq a a n"
  by (simp add: memcmp_eq_def list_all_iff)

section \<open>Population count below a bit\<close>

lemma count_set_below_eq:
  "count_set_below ws i acc = acc + length (filter (bm_get ws) [0..<i])"
  by (induction i arbitrary: acc) auto

section \<open>Word-at-a-time subset test\<close>

lemma word_and_eq_self_iff:
  "(w AND v = w) \<longleftrightarrow> (\<forall>k. bit (w::bitelem) k \<longrightarrow> bit v k)"
proof
  assume "w AND v = w"
  then show "\<forall>k. bit w k \<longrightarrow> bit v k" by (metis bit_and_iff)
next
  assume "\<forall>k. bit w k \<longrightarrow> bit v k"
  then show "w AND v = w" by (intro bit_eqI) (auto simp: bit_and_iff)
qed

lemma bit_word_bound: "bit (w::bitelem) k \<Longrightarrow> k < 64"
  using bit_imp_le_length by fastforce

text \<open>The word loop decides bit-wise inclusion on the first \<open>64 * e\<close> bits.\<close>

lemma words_subset_iff:
  "words_subset a b e \<longleftrightarrow> (\<forall>j < 64 * e. bm_get a j \<longrightarrow> bm_get b j)"
proof
  assume L: "words_subset a b e"
  show "\<forall>j < 64 * e. bm_get a j \<longrightarrow> bm_get b j"
  proof (intro allI impI)
    fix j assume "j < 64 * e" "bm_get a j"
    then have "j div 64 < e" by (simp add: less_mult_imp_div_less mult.commute)
    with L have "a ! (j div 64) AND b ! (j div 64) = a ! (j div 64)"
      by (simp add: words_subset_def list_all_iff)
    with \<open>bm_get a j\<close> show "bm_get b j"
      by (simp add: bm_get_bit word_and_eq_self_iff)
  qed
next
  assume R: "\<forall>j < 64 * e. bm_get a j \<longrightarrow> bm_get b j"
  show "words_subset a b e"
    unfolding words_subset_def list_all_iff
  proof
    fix i assume "i \<in> set [0..<e]"
    then have i: "i < e" by simp
    have "\<forall>k. bit (a ! i) k \<longrightarrow> bit (b ! i) k"
    proof (intro allI impI)
      fix k assume k: "bit (a ! i) k"
      then have "k < 64" by (rule bit_word_bound)
      moreover have "64 * i + k < 64 * e" using i \<open>k < 64\<close> by linarith
      moreover have "(64 * i + k) div 64 = i" "(64 * i + k) mod 64 = k"
        using \<open>k < 64\<close> by simp_all
      ultimately show "bit (b ! i) k"
        using R k by (metis bm_get_bit)
    qed
    then show "a ! i AND b ! i = a ! i" by (simp add: word_and_eq_self_iff)
  qed
qed

section \<open>Byte-wise comparison\<close>

lemma bit_bm_byte:
  "bit (bm_byte ws k) i \<longleftrightarrow> i < 8 \<and> bit (ws ! (k div 8)) (8 * (k mod 8) + i)"
  by (auto simp: bm_byte_def bit_ucast_iff bit_drop_bit_eq)

lemma bm_byte_eq_iff:
  "bm_byte a k = bm_byte b k \<longleftrightarrow> (\<forall>i < 8. bm_get a (8 * k + i) = bm_get b (8 * k + i))"
proof -
  have idx: "(8 * k + i) div 64 = k div 8" "(8 * k + i) mod 64 = 8 * (k mod 8) + i" if "i < 8" for i
  proof -
    show "(8 * k + i) div 64 = k div 8"
      using that div_mult2_eq[of "8 * k + i" 8 8] by simp
    show "(8 * k + i) mod 64 = 8 * (k mod 8) + i"
      using that mod_mult2_eq[of "8 * k + i" 8 8] by simp
  qed
  have "bm_byte a k = bm_byte b k \<longleftrightarrow> (\<forall>i < 8. bit (bm_byte a k) i = bit (bm_byte b k) i)"
  proof
    assume "\<forall>i < 8. bit (bm_byte a k) i = bit (bm_byte b k) i"
    then show "bm_byte a k = bm_byte b k" by (intro bit_word_eqI) simp
  qed simp
  also have "\<dots> \<longleftrightarrow> (\<forall>i < 8. bm_get a (8 * k + i) = bm_get b (8 * k + i))"
    by (auto simp: bit_bm_byte bm_get_bit idx)
  finally show ?thesis .
qed

lemma memcmp_eq_iff:
  "memcmp_eq a b n \<longleftrightarrow> (\<forall>j < 8 * n. bm_get a j = bm_get b j)"
proof
  assume "memcmp_eq a b n"
  then have B: "\<forall>k < n. bm_byte a k = bm_byte b k" by (simp add: memcmp_eq_def list_all_iff)
  show "\<forall>j < 8 * n. bm_get a j = bm_get b j"
  proof (intro allI impI)
    fix j assume "j < 8 * n"
    then have "j div 8 < n" by (simp add: less_mult_imp_div_less mult.commute)
    with B have "\<forall>i < 8. bm_get a (8 * (j div 8) + i) = bm_get b (8 * (j div 8) + i)"
      by (simp add: bm_byte_eq_iff)
    then show "bm_get a j = bm_get b j"
      by (metis div_mult_mod_eq mod_less_divisor mult.commute zero_less_numeral)
  qed
next
  assume R: "\<forall>j < 8 * n. bm_get a j = bm_get b j"
  show "memcmp_eq a b n"
    unfolding memcmp_eq_def list_all_iff
  proof
    fix k assume "k \<in> set [0..<n]"
    then have "k < n" by simp
    then have "\<forall>i < 8. 8 * k + i < 8 * n" by linarith
    with R show "bm_byte a k = bm_byte b k" by (simp add: bm_byte_eq_iff)
  qed
qed

section \<open>Bit scan\<close>

lemma bit_scan_forward_None [bm_simps]: "bit_scan_forward w = None \<longleftrightarrow> w = 0"
proof -
  have "bit_scan_forward w = None \<longleftrightarrow> (\<forall>k < 64. \<not> bit w k)"
    by (auto simp: bit_scan_forward_def find_None_iff)
  also have "\<dots> \<longleftrightarrow> w = 0"
  proof
    assume "\<forall>k < 64. \<not> bit w k"
    then show "w = 0" by (intro bit_word_eqI) simp
  qed simp
  finally show ?thesis .
qed

lemma bit_scan_forward_Some:
  "bit_scan_forward w = Some k \<longleftrightarrow> bit w k \<and> (\<forall>j < k. \<not> bit w j)"
proof -
  have "bit_scan_forward w = Some k \<longleftrightarrow>
        (\<exists>i < 64. bit w i \<and> k = i \<and> (\<forall>j < i. \<not> bit w j))"
    unfolding bit_scan_forward_def find_Some_iff by auto
  also have "\<dots> \<longleftrightarrow> bit w k \<and> (\<forall>j < k. \<not> bit w j)"
    using bit_word_bound[of w k] by auto
  finally show ?thesis .
qed

lemma bit_scan_forward_zero [bm_simps]: "bit_scan_forward 0 = None"
  by (simp add: bit_scan_forward_None)

end
