(* ===== verification/Archetype.thy ===== *)
theory Archetype
  imports Bitmask
begin

text \<open>
  \<open>FArchetype\<close> of \<open>Types/Archetype.h\<close>: a column table with one row per
  component type.  Each row (\<open>FComponentsRow\<close>) is a raw buffer of
  \<open>NumColumns\<close> slots of its \<open>UScriptStruct\<close>; \<open>InitializedColumnBitMask\<close>
  says which columns are live; \<open>IncludedCompTagBitMask\<close> is the signature.
  Every operation returns a fault (\<open>Inl\<close>) where the code's \<open>check\<close> fails.
  The invariant \<open>arch_inv\<close> ties the live bits to the slots of every row.
\<close>

unbundle bit_operations_syntax

record 'v comp_row =
  row_mem :: "'v cell list option"
  row_type :: "'v script_struct"

record 'v archetype =
  num_rows :: nat
  num_columns :: nat
  init_mask :: "bitelem list option"
  comp_mask :: "bitelem list"
  rows :: "'v comp_row list"

section \<open>Construction and validity\<close>

text \<open>\<open>FArchetype(HasCompTagBitMask, Comps)\<close>: copy the signature words, one
  empty row per component type, no columns.\<close>

definition arch_new :: "bitelem list \<Rightarrow> nat \<Rightarrow> 'v script_struct list \<Rightarrow> 'v archetype" where
  "arch_new bits nbits comps =
     \<lparr>num_rows = length comps, num_columns = 0, init_mask = None,
      comp_mask = take (bit_words nbits) bits,
      rows = map (\<lambda>t. \<lparr>row_mem = None, row_type = t\<rparr>) comps\<rparr>"

definition is_valid_row :: "'v archetype \<Rightarrow> int \<Rightarrow> bool" where
  "is_valid_row a i \<longleftrightarrow> i < int (num_rows a) \<and> i > INDEX_NONE"

definition is_valid_column :: "'v archetype \<Rightarrow> int \<Rightarrow> bool" where
  "is_valid_column a i \<longleftrightarrow> i < int (num_columns a) \<and> i > INDEX_NONE"

definition is_column_initialized :: "'v archetype \<Rightarrow> int \<Rightarrow> bool checked" where
  "is_column_initialized a i =
     (if \<not> is_valid_column a i then Inl InvalidColumn
      else case init_mask a of
             None \<Rightarrow> Inl OutOfBounds
           | Some ws \<Rightarrow> Inr (bm_get ws (nat i)))"

definition set_column_initialized_flag :: "bool \<Rightarrow> int \<Rightarrow> 'v archetype \<Rightarrow> 'v archetype checked" where
  "set_column_initialized_flag b i a =
     (if \<not> is_valid_column a i then Inl InvalidColumn
      else case init_mask a of
             None \<Rightarrow> Inl OutOfBounds
           | Some ws \<Rightarrow> Inr (a\<lparr>init_mask := Some (bm_set b (nat i) ws)\<rparr>))"

section \<open>Row operations\<close>

text \<open>\<open>InitializeStruct(Row[Col])\<close>, then \<open>CopyScriptStruct(Row[Col], Src)\<close>
  when a copy source is given (the body of the row loop of
  \<open>AddAtFirstUninitialized\<close>); \<open>Row.Memory\<close> must be allocated.\<close>

definition row_construct :: "int \<Rightarrow> 'v comp_row \<times> 'v option \<Rightarrow> 'v comp_row checked" where
  "row_construct c rs =
     (case rs of (r, src) \<Rightarrow>
       case row_mem r of
         None \<Rightarrow> Inl OutOfBounds
       | Some cs \<Rightarrow>
           (case mem_init cs c 1 (ss_default (row_type r)) of
              Inl e \<Rightarrow> Inl e
            | Inr cs1 \<Rightarrow>
                (case src of
                   None \<Rightarrow> Inr (r\<lparr>row_mem := Some cs1\<rparr>)
                 | Some v \<Rightarrow>
                     (case mem_copy cs1 c [v] of
                        Inl e \<Rightarrow> Inl e
                      | Inr cs2 \<Rightarrow> Inr (r\<lparr>row_mem := Some cs2\<rparr>)))))"

text \<open>\<open>DestroyStruct(Row[Col])\<close>.\<close>

definition row_destroy :: "int \<Rightarrow> 'v comp_row \<Rightarrow> 'v comp_row checked" where
  "row_destroy c r =
     (case row_mem r of
        None \<Rightarrow> Inl OutOfBounds
      | Some cs \<Rightarrow>
          (case mem_destroy cs c 1 of
             Inl e \<Rightarrow> Inl e
           | Inr cs1 \<Rightarrow> Inr (r\<lparr>row_mem := Some cs1\<rparr>)))"

text \<open>\<open>InitializeStruct(Row[First], Num)\<close> of \<open>AddDefaulted\<close>.\<close>

definition row_construct_range :: "int \<Rightarrow> nat \<Rightarrow> 'v comp_row \<Rightarrow> 'v comp_row checked" where
  "row_construct_range c n r =
     (case row_mem r of
        None \<Rightarrow> Inl OutOfBounds
      | Some cs \<Rightarrow>
          (case mem_init cs c n (ss_default (row_type r)) of
             Inl e \<Rightarrow> Inl e
           | Inr cs1 \<Rightarrow> Inr (r\<lparr>row_mem := Some cs1\<rparr>)))"

text \<open>\<open>Row.Memory = Malloc(NumColumns * Size)\<close> or \<open>Realloc(...)\<close>.\<close>

definition row_grow :: "nat \<Rightarrow> 'v comp_row \<Rightarrow> 'v comp_row" where
  "row_grow n r =
     r\<lparr>row_mem := Some (case row_mem r of None \<Rightarrow> mem_malloc n | Some cs \<Rightarrow> mem_realloc cs n)\<rparr>"

section \<open>Adding columns\<close>

text \<open>
  \<open>AddUninitialized(Num)\<close>.  The first allocation of the live mask is
  \<open>MallocZeroed\<close>; a later one is \<open>Realloc\<close> (when the word count changes),
  followed by clearing every new column's bit.  The words a \<open>Realloc\<close> adds
  are taken as zero (\<open>realloc_words\<close>); the clearing loop overwrites all of
  them whenever columns grow by a multiple of 64, as the subsystem's chunk does.
\<close>

definition realloc_words :: "bitelem list \<Rightarrow> nat \<Rightarrow> bitelem list" where
  "realloc_words ws n = take n ws @ replicate (n - length ws) 0"

definition add_uninitialized :: "int \<Rightarrow> 'v archetype \<Rightarrow> ('v archetype \<times> int) checked" where
  "add_uninitialized n a =
     (if \<not> n > 0 then Inl BadCount
      else
        let old = num_columns a;
            nc = old + nat n;
            mask = (case init_mask a of
                      None \<Rightarrow> bm_zeroed nc
                    | Some ws \<Rightarrow>
                        fold (bm_set False) [old..<nc]
                          (if bit_words nc \<noteq> bit_words old then realloc_words ws (bit_words nc)
                           else ws))
        in Inr (a\<lparr>num_columns := nc, init_mask := Some mask,
                  rows := map (row_grow nc) (rows a)\<rparr>, int old))"

text \<open>The scan of \<open>AddAtFirstUninitialized\<close>: the first column whose
  \<open>IsColumnInitialized\<close> is false, or \<open>INDEX_NONE\<close>.\<close>

fun scan_uninitialized :: "'v archetype \<Rightarrow> nat list \<Rightarrow> int checked" where
  "scan_uninitialized a [] = Inr INDEX_NONE"
| "scan_uninitialized a (i # cols) =
     (case is_column_initialized a (int i) of
        Inl e \<Rightarrow> Inl e
      | Inr True \<Rightarrow> scan_uninitialized a cols
      | Inr False \<Rightarrow> Inr (int i))"

definition copy_sources :: "nat \<Rightarrow> 'v list option \<Rightarrow> 'v option list" where
  "copy_sources n copy = (case copy of None \<Rightarrow> replicate n None | Some vs \<Rightarrow> map Some vs)"

definition add_at_first_uninitialized ::
  "'v list option \<Rightarrow> int \<Rightarrow> 'v archetype \<Rightarrow> ('v archetype \<times> int) checked" where
  "add_at_first_uninitialized copy chunk a =
     (if \<not> chunk > 0 then Inl BadCount
      else if (case copy of None \<Rightarrow> False | Some vs \<Rightarrow> length vs \<noteq> num_rows a) then Inl BadCopyCount
      else
        (case scan_uninitialized a [0..<num_columns a] of
           Inl e \<Rightarrow> Inl e
         | Inr u \<Rightarrow>
            (case (if u = INDEX_NONE then
                     (case add_uninitialized chunk a of
                        Inl e \<Rightarrow> Inl e
                      | Inr (a1, c) \<Rightarrow>
                          (case is_column_initialized a1 c of
                             Inl e \<Rightarrow> Inl e
                           | Inr True \<Rightarrow> Inl ColumnAlreadyInitialized
                           | Inr False \<Rightarrow> Inr (a1, c)))
                   else Inr (a, u)) of
               Inl e \<Rightarrow> Inl e
             | Inr (a1, c) \<Rightarrow>
                (case map_checked (row_construct c)
                        (zip (rows a1) (copy_sources (num_rows a1) copy)) of
                   Inl e \<Rightarrow> Inl e
                 | Inr rs \<Rightarrow>
                    (case set_column_initialized_flag True c (a1\<lparr>rows := rs\<rparr>) of
                       Inl e \<Rightarrow> Inl e
                     | Inr a2 \<Rightarrow> Inr (a2, c))))))"

text \<open>\<open>AddDefaulted(Num)\<close>: add \<open>Num\<close> columns, mark each live (checking it
  was not), construct the defaults in every row.\<close>

fun mark_initialized :: "nat list \<Rightarrow> 'v archetype \<Rightarrow> 'v archetype checked" where
  "mark_initialized [] a = Inr a"
| "mark_initialized (i # cols) a =
     (case is_column_initialized a (int i) of
        Inl e \<Rightarrow> Inl e
      | Inr True \<Rightarrow> Inl ColumnAlreadyInitialized
      | Inr False \<Rightarrow>
          (case set_column_initialized_flag True (int i) a of
             Inl e \<Rightarrow> Inl e
           | Inr a1 \<Rightarrow> mark_initialized cols a1))"

definition add_defaulted :: "int \<Rightarrow> 'v archetype \<Rightarrow> ('v archetype \<times> int) checked" where
  "add_defaulted n a =
     (case add_uninitialized n a of
        Inl e \<Rightarrow> Inl e
      | Inr (a1, first) \<Rightarrow>
          (case mark_initialized [nat first..<num_columns a1] a1 of
             Inl e \<Rightarrow> Inl e
           | Inr a2 \<Rightarrow>
              (case map_checked (row_construct_range first (nat n)) (rows a2) of
                 Inl e \<Rightarrow> Inl e
               | Inr rs \<Rightarrow> Inr (a2\<lparr>rows := rs\<rparr>, first))))"

section \<open>Destroying a column\<close>

definition destruct_at :: "int \<Rightarrow> 'v archetype \<Rightarrow> ('v archetype \<times> bool) checked" where
  "destruct_at c a =
     (case is_column_initialized a c of
        Inl e \<Rightarrow> Inl e
      | Inr False \<Rightarrow> Inr (a, False)
      | Inr True \<Rightarrow>
          (case set_column_initialized_flag False c a of
             Inl e \<Rightarrow> Inl e
           | Inr a1 \<Rightarrow>
              (case map_checked (row_destroy c) (rows a1) of
                 Inl e \<Rightarrow> Inl e
               | Inr rs \<Rightarrow> Inr (a1\<lparr>rows := rs\<rparr>, True))))"

text \<open>\<open>~FArchetype\<close>: every live value of every row is destroyed; the result
  is the rows' buffers just before they are freed.\<close>

definition initialized_columns :: "'v archetype \<Rightarrow> nat list" where
  "initialized_columns a =
     (case init_mask a of None \<Rightarrow> [] | Some ws \<Rightarrow> filter (bm_get ws) [0..<num_columns a])"

definition arch_destroy :: "'v archetype \<Rightarrow> 'v comp_row list checked" where
  "arch_destroy a =
     map_checked (\<lambda>r. fold (\<lambda>c rr. case rr of Inl e \<Rightarrow> Inl e | Inr r1 \<Rightarrow> row_destroy (int c) r1)
                         (initialized_columns a) (Inr r))
       (rows a)"

section \<open>Lookups\<close>

text \<open>\<open>GetCompRow\<close>: the row of a component type is the number of signature
  bits set below its id.\<close>

definition get_comp_row :: "'v archetype \<Rightarrow> int \<Rightarrow> int checked" where
  "get_comp_row a cid =
     (if cid < 0 \<or> length (comp_mask a) \<le> nat cid div 64 then Inl OutOfBounds
      else if \<not> bm_get (comp_mask a) (nat cid) then Inl NoCompRow
      else
        let r = int (count_set_below (comp_mask a) (nat cid) 0)
        in if is_valid_row a r then Inr r else Inl InvalidRow)"

text \<open>\<open>FindFirstUninitializedRow(StartColumn)\<close>, as written: it walks the mask
  words from index \<open>StartColumn\<close> and returns one past the lowest set bit of
  the first non-zero word.\<close>

function scan_words :: "bitelem list \<Rightarrow> nat \<Rightarrow> nat \<Rightarrow> int" where
  "scan_words ws i n =
     (if i < n then
        (case bit_scan_forward (ws ! i) of
           Some v \<Rightarrow> int v + 1 + int i * 64
         | None \<Rightarrow> scan_words ws (Suc i) n)
      else INDEX_NONE)"
  by pat_completeness auto
termination
  by (relation "measure (\<lambda>(ws, i, n). n - i)") auto

declare scan_words.simps [simp del]

definition find_first_uninitialized_row :: "'v archetype \<Rightarrow> int \<Rightarrow> int checked" where
  "find_first_uninitialized_row a start =
     (if start < 0 then Inl InvalidIndex
      else
        let n = bit_words (num_columns a) in
        case init_mask a of
          None \<Rightarrow> (if nat start < n then Inl OutOfBounds else Inr INDEX_NONE)
        | Some ws \<Rightarrow> Inr (scan_words ws (nat start) n))"

text \<open>\<open>HasSameSetIdentifierFlags(Other, NumCompsAndTags)\<close>.\<close>

definition has_same_set_identifier_flags :: "'v archetype \<Rightarrow> 'v archetype \<Rightarrow> nat \<Rightarrow> bool" where
  "has_same_set_identifier_flags a other n =
     words_subset (comp_mask a) (comp_mask other) (div_round_up n 64)"

text \<open>\<open>Get<T>(RowIndex, ColumnIndex)\<close>: the value, or none (\<open>nullptr\<close>) when the
  column is not live.\<close>

definition arch_get :: "'v archetype \<Rightarrow> int \<Rightarrow> int \<Rightarrow> 'v option checked" where
  "arch_get a r c =
     (if \<not> is_valid_row a r then Inl InvalidRow
      else case is_column_initialized a c of
             Inl e \<Rightarrow> Inl e
           | Inr False \<Rightarrow> Inr None
           | Inr True \<Rightarrow>
               (case row_mem (rows a ! nat r) of
                  None \<Rightarrow> Inl OutOfBounds
                | Some cs \<Rightarrow> Inr (cell_val (cs ! nat c))))"

section \<open>The invariant\<close>

text \<open>A column is live in the model when its mask bit is set; a row slot is read as
  unconstructed where the row has no buffer.  \<open>arch_inv\<close>: one row per component
  type, the mask and every row buffer sized to \<open>NumColumns\<close>, and every live bit
  matched by a live slot in every row (and every clear bit by none).\<close>

definition live_bit :: "'v archetype \<Rightarrow> nat \<Rightarrow> bool" where
  "live_bit a c = (case init_mask a of None \<Rightarrow> False | Some ws \<Rightarrow> bm_get ws c)"

definition row_cell :: "'v comp_row \<Rightarrow> nat \<Rightarrow> 'v cell" where
  "row_cell r c = (case row_mem r of None \<Rightarrow> Uninit | Some cs \<Rightarrow> cs ! c)"

definition row_ok :: "nat \<Rightarrow> 'v comp_row \<Rightarrow> bool" where
  "row_ok n r \<longleftrightarrow> (case row_mem r of None \<Rightarrow> n = 0 | Some cs \<Rightarrow> length cs = n)"

definition arch_inv :: "'v archetype \<Rightarrow> bool" where
  "arch_inv a \<longleftrightarrow>
     num_rows a = length (rows a) \<and>
     (case init_mask a of None \<Rightarrow> num_columns a = 0 | Some ws \<Rightarrow> length ws = bit_words (num_columns a)) \<and>
     list_all (row_ok (num_columns a)) (rows a) \<and>
     (\<forall>c < num_columns a. list_all (\<lambda>r. is_live (row_cell r c) = live_bit a c) (rows a))"

definition row_put :: "'v comp_row \<Rightarrow> nat \<Rightarrow> 'v cell \<Rightarrow> 'v comp_row" where
  "row_put r j x = r\<lparr>row_mem := map_option (\<lambda>cs. cs[j := x]) (row_mem r)\<rparr>"

definition first_free :: "'v archetype \<Rightarrow> nat option" where
  "first_free a = find (\<lambda>i. \<not> live_bit a i) [0..<num_columns a]"

definition fill_column :: "'v archetype \<Rightarrow> nat \<Rightarrow> 'v option list \<Rightarrow> bitelem list \<Rightarrow> 'v archetype" where
  "fill_column a j srcs ws =
     a\<lparr>rows := map (\<lambda>(r, s). row_put r j (Live (case s of None \<Rightarrow> ss_default (row_type r) | Some v \<Rightarrow> v)))
                 (zip (rows a) srcs),
       init_mask := Some (bm_set True j ws)\<rparr>"

section \<open>Fixtures\<close>

text \<open>A two-row archetype (components of 4 and 16 bytes) and the same archetype
  after two spawns, used by the witnesses.\<close>

definition ex_ta :: "nat script_struct" where
  "ex_ta = \<lparr>ss_uid = 1, ss_size = 4, ss_align = 4, ss_default = 7, ss_super = []\<rparr>"
definition ex_tb :: "nat script_struct" where
  "ex_tb = \<lparr>ss_uid = 2, ss_size = 16, ss_align = 8, ss_default = 9, ss_super = []\<rparr>"
definition ex_arch0 :: "nat archetype" where
  "ex_arch0 = arch_new (bm_from_ids 2 [0, 1]) 2 [ex_ta, ex_tb]"
definition ex_arch2 :: "nat archetype" where
  "ex_arch2 = fst (projr (add_at_first_uninitialized None 1
                (fst (projr (add_at_first_uninitialized None 1 ex_arch0)))))"

section \<open>Lemmas\<close>

lemma bm_get_fold_set_any:
  assumes "\<forall>k \<in> set ids. k div 64 < length ws"
  shows "bm_get (fold (bm_set b) ids ws) j \<longleftrightarrow> (if j \<in> set ids then b else bm_get ws j)"
  using assms
proof (induction ids arbitrary: ws)
  case Nil
  then show ?case by simp
next
  case (Cons k ids)
  have "\<forall>k' \<in> set ids. k' div 64 < length (bm_set b k ws)"
    using Cons.prems by (simp add: length_bm_set)
  with Cons show ?case by (auto simp: bm_get_set)
qed

lemma bm_get_realloc_words:
  "j div 64 < length ws \<Longrightarrow> j div 64 < n \<Longrightarrow> bm_get (realloc_words ws n) j = bm_get ws j"
  by (simp add: realloc_words_def bm_get_bit nth_append)

lemma length_realloc_words: "length (realloc_words ws n) = n"
  by (simp add: realloc_words_def)

lemma arch_inv_new: "arch_inv (arch_new bits n comps)"
  by (simp add: arch_inv_def arch_new_def list_all_iff row_ok_def)

lemma is_column_initialized_inv:
  "arch_inv a \<Longrightarrow> is_valid_column a c \<Longrightarrow> is_column_initialized a c = Inr (live_bit a (nat c))"
  by (auto simp: arch_inv_def is_column_initialized_def is_valid_column_def live_bit_def split: option.splits)

lemma set_column_initialized_flag_inv:
  assumes "arch_inv a" "is_valid_column a c"
  shows "\<exists>ws. init_mask a = Some ws \<and> length ws = bit_words (num_columns a) \<and>
     set_column_initialized_flag b c a = Inr (a\<lparr>init_mask := Some (bm_set b (nat c) ws)\<rparr>)"
  using assms by (auto simp: arch_inv_def set_column_initialized_flag_def is_valid_column_def split: option.splits)

lemma live_bit_set_flag:
  "init_mask a = Some ws \<Longrightarrow> length ws = bit_words (num_columns a) \<Longrightarrow> c < num_columns a \<Longrightarrow>
   live_bit (a\<lparr>init_mask := Some (bm_set b c ws)\<rparr>) j = (if j = c then b else live_bit a j)"
  by (simp add: live_bit_def bm_get_set bit_words_less)

lemma scan_uninitialized_inv:
  assumes "arch_inv a" "\<forall>i \<in> set cols. i < num_columns a"
  shows "scan_uninitialized a cols =
           Inr (case find (\<lambda>i. \<not> live_bit a i) cols of None \<Rightarrow> INDEX_NONE | Some i \<Rightarrow> int i)"
  using assms(2)
proof (induction cols)
  case Nil
  then show ?case by simp
next
  case (Cons i cols)
  then have "is_valid_column a (int i)" by (simp add: is_valid_column_def)
  with Cons assms(1) show ?case by (simp add: is_column_initialized_inv)
qed

lemma row_put_ok: "row_ok n r \<Longrightarrow> row_ok n (row_put r j x)"
  by (simp add: row_ok_def row_put_def split: option.splits)

lemma row_type_row_put [simp]: "row_type (row_put r j x) = row_type r"
  by (simp add: row_put_def)

lemma row_cell_row_put:
  "row_ok n r \<Longrightarrow> j < n \<Longrightarrow> row_cell (row_put r j x) k = (if k = j then x else row_cell r k)"
  by (auto simp: row_ok_def row_put_def row_cell_def split: option.splits)

lemma row_construct_ok:
  assumes "row_ok n r" "j < n"
  shows "row_construct (int j) (r, src) =
           Inr (row_put r j (Live (case src of None \<Rightarrow> ss_default (row_type r) | Some v \<Rightarrow> v)))"
proof -
  obtain cs where cs: "row_mem r = Some cs" "length cs = n"
    using assms by (cases "row_mem r") (auto simp: row_ok_def)
  then have j: "j < length cs" using assms(2) by simp
  show ?thesis
  proof (cases src)
    case None
    with cs j show ?thesis by (simp add: row_construct_def row_put_def mem_init_one)
  next
    case (Some v)
    from j have "j < length (cs[j := Live (ss_default (row_type r))])" by simp
    with cs j Some show ?thesis
      by (simp add: row_construct_def row_put_def mem_init_one mem_copy_one)
  qed
qed

lemma row_destroy_ok:
  assumes "row_ok n r" "j < n" "is_live (row_cell r j)"
  shows "row_destroy (int j) r = Inr (row_put r j Uninit)"
proof -
  obtain cs where cs: "row_mem r = Some cs" "length cs = n"
    using assms(1,2) by (cases "row_mem r") (auto simp: row_ok_def)
  with assms show ?thesis
    by (simp add: row_destroy_def row_put_def mem_destroy_one row_cell_def)
qed

lemma row_ok_row_grow: "row_ok n (row_grow n r)"
  by (simp add: row_ok_def row_grow_def mem_simps split: option.splits)

lemma row_type_row_grow [simp]: "row_type (row_grow n r) = row_type r"
  by (simp add: row_grow_def)

lemma row_cell_row_grow:
  "row_ok m r \<Longrightarrow> j < n \<Longrightarrow> row_cell (row_grow n r) j = (if j < m then row_cell r j else Uninit)"
  by (auto simp: row_ok_def row_grow_def row_cell_def mem_simps mem_malloc_def split: option.splits)

lemma add_uninitialized_result:
  assumes inv: "arch_inv a" and n: "0 < n"
  obtains a' where "add_uninitialized n a = Inr (a', int (num_columns a))"
    and "num_columns a' = num_columns a + nat n" "num_rows a' = num_rows a"
    and "comp_mask a' = comp_mask a"
    and "rows a' = map (row_grow (num_columns a + nat n)) (rows a)"
    and "\<And>j. j < num_columns a' \<Longrightarrow> live_bit a' j \<longleftrightarrow> j < num_columns a \<and> live_bit a j"
    and "\<exists>ws. init_mask a' = Some ws \<and> length ws = bit_words (num_columns a')"
proof -
  let ?old = "num_columns a"
  let ?nc = "num_columns a + nat n"
  show ?thesis
  proof (cases "init_mask a")
    case None
    with inv have "?old = 0" by (simp add: arch_inv_def)
    with None n show ?thesis
      by (intro that [of "a\<lparr>num_columns := ?nc, init_mask := Some (bm_zeroed ?nc),
                rows := map (row_grow ?nc) (rows a)\<rparr>"])
         (simp_all add: add_uninitialized_def Let_def live_bit_def bm_get_zeroed bit_words_less length_bm_zeroed)
  next
    case (Some ws)
    with inv have lw: "length ws = bit_words ?old" by (simp add: arch_inv_def)
    define ws' where "ws' = (if bit_words ?nc \<noteq> bit_words ?old then realloc_words ws (bit_words ?nc) else ws)"
    have lw': "length ws' = bit_words ?nc"
      using lw by (simp add: ws'_def length_realloc_words)
    have new: "\<forall>k \<in> set [?old..<?nc]. k div 64 < length ws'"
      using lw' by (simp add: bit_words_less)
    have old: "bm_get ws' j = bm_get ws j" if "j < ?old" for j
    proof -
      have "j div 64 < length ws" using lw that by (simp add: bit_words_less)
      moreover have "j div 64 < bit_words ?nc" using that by (simp add: bit_words_less)
      ultimately show ?thesis by (simp add: ws'_def bm_get_realloc_words)
    qed
    show ?thesis
    proof (rule that [of "a\<lparr>num_columns := ?nc, init_mask := Some (fold (bm_set False) [?old..<?nc] ws'),
                rows := map (row_grow ?nc) (rows a)\<rparr>"])
      show "add_uninitialized n a = Inr (a\<lparr>num_columns := ?nc,
               init_mask := Some (fold (bm_set False) [?old..<?nc] ws'),
               rows := map (row_grow ?nc) (rows a)\<rparr>, int ?old)"
        using n Some by (simp add: add_uninitialized_def ws'_def Let_def)
      fix j assume "j < num_columns (a\<lparr>num_columns := ?nc,
               init_mask := Some (fold (bm_set False) [?old..<?nc] ws'), rows := map (row_grow ?nc) (rows a)\<rparr>)"
      then have "j < ?nc" by simp
      then show "live_bit (a\<lparr>num_columns := ?nc,
               init_mask := Some (fold (bm_set False) [?old..<?nc] ws'), rows := map (row_grow ?nc) (rows a)\<rparr>) j
              \<longleftrightarrow> j < ?old \<and> live_bit a j"
        using new old Some by (auto simp: live_bit_def bm_get_fold_set_any)
    qed (simp_all add: lw' length_bm_fold_set)
  qed
qed

lemma arch_inv_add_uninitialized:
  assumes inv: "arch_inv a" and r: "add_uninitialized n a = Inr (a', c)"
  shows "arch_inv a'"
proof -
  have n: "0 < n" using r by (simp add: add_uninitialized_def split: if_splits)
  obtain b where b: "add_uninitialized n a = Inr (b, int (num_columns a))"
    and nc: "num_columns b = num_columns a + nat n" "num_rows b = num_rows a"
    and "comp_mask b = comp_mask a"
    and rows: "rows b = map (row_grow (num_columns a + nat n)) (rows a)"
    and live: "\<And>j. j < num_columns b \<Longrightarrow> live_bit b j \<longleftrightarrow> j < num_columns a \<and> live_bit a j"
    and mask: "\<exists>ws. init_mask b = Some ws \<and> length ws = bit_words (num_columns b)"
    by (rule add_uninitialized_result [OF inv n]) blast
  from r b have ab: "a' = b" by simp
  have rows_ok: "list_all (row_ok (num_columns a)) (rows a)"
    using inv by (simp add: arch_inv_def)
  have cells: "\<forall>c < num_columns b. list_all (\<lambda>r. is_live (row_cell r c) = live_bit b c) (rows b)"
  proof (intro allI impI)
    fix c assume c: "c < num_columns b"
    have "list_all (\<lambda>r. is_live (row_cell r c) = live_bit a c) (rows a)" if "c < num_columns a"
      using inv that by (simp add: arch_inv_def)
    then have old: "c < num_columns a \<Longrightarrow> r0 \<in> set (rows a) \<Longrightarrow> is_live (row_cell r0 c) = live_bit a c" for r0
      by (simp add: list_all_iff)
    show "list_all (\<lambda>r. is_live (row_cell r c) = live_bit b c) (rows b)"
      unfolding list_all_iff
    proof
      fix r assume "r \<in> set (rows b)"
      then obtain r0 where r0: "r0 \<in> set (rows a)" "r = row_grow (num_columns a + nat n) r0"
        by (auto simp: rows)
      with rows_ok have "row_ok (num_columns a) r0" by (simp add: list_all_iff)
      with r0 c old show "is_live (row_cell r c) = live_bit b c"
        by (auto simp: nc live row_cell_row_grow)
    qed
  qed
  from inv mask cells show ?thesis
    unfolding ab arch_inv_def by (auto simp: nc rows list_all_iff row_ok_row_grow)
qed

lemma construct_column:
  assumes inv: "arch_inv a" and j: "j < num_columns a" and len: "length srcs = length (rows a)"
  obtains ws where "init_mask a = Some ws" "length ws = bit_words (num_columns a)"
    and "map_checked (row_construct (int j)) (zip (rows a) srcs) = Inr (rows (fill_column a j srcs ws))"
    and "set_column_initialized_flag True (int j) (a\<lparr>rows := rows (fill_column a j srcs ws)\<rparr>)
           = Inr (fill_column a j srcs ws)"
proof -
  obtain ws where ws: "init_mask a = Some ws" "length ws = bit_words (num_columns a)"
    using inv j by (cases "init_mask a") (auto simp: arch_inv_def)
  have ok: "row_ok (num_columns a) r" if "r \<in> set (rows a)" for r
    using inv that by (simp add: arch_inv_def list_all_iff)
  have "map_checked (row_construct (int j)) (zip (rows a) srcs) = Inr (rows (fill_column a j srcs ws))"
    unfolding fill_column_def
    by (simp, rule map_checked_total) (auto dest!: set_zip_leftD ok intro: row_construct_ok j)
  moreover have "is_valid_column (a\<lparr>rows := rows (fill_column a j srcs ws)\<rparr>) (int j)"
    using j by (simp add: is_valid_column_def)
  ultimately show ?thesis
    using ws that by (simp add: set_column_initialized_flag_def fill_column_def)
qed

lemma fill_column_facts:
  assumes inv: "arch_inv a" and j: "j < num_columns a" and len: "length srcs = length (rows a)"
    and ws: "init_mask a = Some ws"
  shows "arch_inv (fill_column a j srcs ws)"
    and "num_columns (fill_column a j srcs ws) = num_columns a"
    and "num_rows (fill_column a j srcs ws) = num_rows a"
    and "comp_mask (fill_column a j srcs ws) = comp_mask a"
    and "map row_type (rows (fill_column a j srcs ws)) = map row_type (rows a)"
    and "\<And>i. live_bit (fill_column a j srcs ws) i = (if i = j then True else live_bit a i)"
    and "\<And>r. r < length (rows a) \<Longrightarrow> row_cell (rows (fill_column a j srcs ws) ! r) j =
            Live (case srcs ! r of None \<Rightarrow> ss_default (row_type (rows a ! r)) | Some v \<Rightarrow> v)"
proof -
  have lw: "length ws = bit_words (num_columns a)" using inv ws by (simp add: arch_inv_def)
  have ok: "row_ok (num_columns a) r" if "r \<in> set (rows a)" for r
    using inv that by (simp add: arch_inv_def list_all_iff)
  show live: "\<And>i. live_bit (fill_column a j srcs ws) i = (if i = j then True else live_bit a i)"
    using ws lw j by (simp add: fill_column_def live_bit_def bm_get_set bit_words_less)
  show "num_columns (fill_column a j srcs ws) = num_columns a"
       "num_rows (fill_column a j srcs ws) = num_rows a"
       "comp_mask (fill_column a j srcs ws) = comp_mask a"
    by (simp_all add: fill_column_def)
  have "map row_type (rows (fill_column a j srcs ws)) = map row_type (map fst (zip (rows a) srcs))"
    by (simp add: fill_column_def case_prod_beta)
  then show "map row_type (rows (fill_column a j srcs ws)) = map row_type (rows a)"
    using len by simp
  show "\<And>r. r < length (rows a) \<Longrightarrow> row_cell (rows (fill_column a j srcs ws) ! r) j =
            Live (case srcs ! r of None \<Rightarrow> ss_default (row_type (rows a ! r)) | Some v \<Rightarrow> v)"
  proof -
    fix r assume r: "r < length (rows a)"
    then have "row_ok (num_columns a) (rows a ! r)" by (simp add: ok)
    with r len j show "row_cell (rows (fill_column a j srcs ws) ! r) j =
            Live (case srcs ! r of None \<Rightarrow> ss_default (row_type (rows a ! r)) | Some v \<Rightarrow> v)"
      by (simp add: fill_column_def row_cell_row_put)
  qed
  have cells: "list_all (\<lambda>r. is_live (row_cell r c) = live_bit (fill_column a j srcs ws) c)
                 (rows (fill_column a j srcs ws))" if c: "c < num_columns a" for c
  proof -
    have old: "is_live (row_cell r0 c) = live_bit a c" if "r0 \<in> set (rows a)" for r0
      using inv c that by (simp add: arch_inv_def list_all_iff)
    have put: "is_live (row_cell (row_put r0 j x) c) = live_bit (fill_column a j srcs ws) c"
      if "r0 \<in> set (rows a)" "is_live x" for r0 x
    proof -
      from that(1) have "row_ok (num_columns a) r0" by (rule ok)
      then have "row_cell (row_put r0 j x) c = (if c = j then x else row_cell r0 c)"
        using j by (rule row_cell_row_put)
      then show ?thesis using that old live by auto
    qed
    show ?thesis
      unfolding list_all_iff by (auto simp: fill_column_def put dest!: set_zip_leftD)
  qed
  show "arch_inv (fill_column a j srcs ws)"
    using inv lw len cells by (auto simp: arch_inv_def fill_column_def list_all_iff length_bm_set
                                   dest!: set_zip_leftD intro: row_put_ok ok)
qed

lemma scan_first_free:
  "arch_inv a \<Longrightarrow> scan_uninitialized a [0..<num_columns a] =
     Inr (case first_free a of None \<Rightarrow> INDEX_NONE | Some i \<Rightarrow> int i)"
  by (simp add: scan_uninitialized_inv first_free_def)

lemma first_free_Some:
  "first_free a = Some i \<Longrightarrow> i < num_columns a \<and> \<not> live_bit a i \<and> (\<forall>j < i. live_bit a j)"
  by (auto simp: first_free_def find_Some_iff)

lemma first_free_None:
  "first_free a = None \<Longrightarrow> i < num_columns a \<Longrightarrow> live_bit a i"
  by (auto simp: first_free_def find_None_iff)

lemma length_copy_sources:
  "(case copy of None \<Rightarrow> True | Some vs \<Rightarrow> length vs = n) \<Longrightarrow> length (copy_sources n copy) = n"
  by (auto simp: copy_sources_def split: option.splits)

lemma add_at_first_uninitialized_result:
  assumes inv: "arch_inv a" and k: "0 < k"
    and cp: "case copy of None \<Rightarrow> True | Some vs \<Rightarrow> length vs = num_rows a"
  obtains a1 j ws where
    "add_at_first_uninitialized copy k a = Inr (fill_column a1 j (copy_sources (num_rows a) copy) ws, int j)"
    "arch_inv a1" "init_mask a1 = Some ws" "j < num_columns a1" "length (rows a1) = length (rows a)"
    "num_rows a1 = num_rows a" "comp_mask a1 = comp_mask a" "map row_type (rows a1) = map row_type (rows a)"
    "j = (case first_free a of None \<Rightarrow> num_columns a | Some i \<Rightarrow> i)"
    "num_columns a1 = (case first_free a of None \<Rightarrow> num_columns a + nat k | Some i \<Rightarrow> num_columns a)"
    "\<And>i. i < num_columns a1 \<Longrightarrow> live_bit a1 i \<longleftrightarrow> i < num_columns a \<and> live_bit a i"
proof -
  let ?srcs = "copy_sources (num_rows a) copy"
  have nr: "num_rows a = length (rows a)" using inv by (simp add: arch_inv_def)
  have guard: "\<not> (case copy of None \<Rightarrow> False | Some vs \<Rightarrow> length vs \<noteq> num_rows a)"
    using cp by (auto split: option.splits)
  have lsrcs: "length ?srcs = num_rows a" using cp by (rule length_copy_sources)
  show ?thesis
  proof (cases "first_free a")
    case (Some i)
    from first_free_Some [OF Some] have i: "i < num_columns a" "\<not> live_bit a i" by auto
    have la: "length ?srcs = length (rows a)" using lsrcs nr by simp
    obtain ws where ws: "init_mask a = Some ws" "length ws = bit_words (num_columns a)"
      and mc: "map_checked (row_construct (int i)) (zip (rows a) ?srcs) = Inr (rows (fill_column a i ?srcs ws))"
      and fl: "set_column_initialized_flag True (int i) (a\<lparr>rows := rows (fill_column a i ?srcs ws)\<rparr>)
                 = Inr (fill_column a i ?srcs ws)"
      by (rule construct_column [OF inv i(1) la])
    have eq: "add_at_first_uninitialized copy k a = Inr (fill_column a i ?srcs ws, int i)"
      using k guard Some mc fl by (simp add: add_at_first_uninitialized_def scan_first_free [OF inv])
    show ?thesis
      by (rule that [of a i ws]) (simp_all add: eq inv ws i Some)
  next
    case None
    obtain b where b: "add_uninitialized k a = Inr (b, int (num_columns a))"
      and nc: "num_columns b = num_columns a + nat k" "num_rows b = num_rows a"
      and cm: "comp_mask b = comp_mask a"
      and rows: "rows b = map (row_grow (num_columns a + nat k)) (rows a)"
      and live: "\<And>j. j < num_columns b \<Longrightarrow> live_bit b j \<longleftrightarrow> j < num_columns a \<and> live_bit a j"
      and "\<exists>ws. init_mask b = Some ws \<and> length ws = bit_words (num_columns b)"
      by (rule add_uninitialized_result [OF inv k]) blast
    have invb: "arch_inv b" by (rule arch_inv_add_uninitialized [OF inv b])
    have j: "num_columns a < num_columns b" using nc k by simp
    have ini: "is_column_initialized b (int (num_columns a)) = Inr False"
      using j live [of "num_columns a"] invb by (simp add: is_column_initialized_inv is_valid_column_def)
    have lb: "length ?srcs = length (rows b)" using lsrcs nr rows by simp
    obtain ws where ws: "init_mask b = Some ws" "length ws = bit_words (num_columns b)"
      and mc: "map_checked (row_construct (int (num_columns a))) (zip (rows b) ?srcs)
                 = Inr (rows (fill_column b (num_columns a) ?srcs ws))"
      and fl: "set_column_initialized_flag True (int (num_columns a))
                 (b\<lparr>rows := rows (fill_column b (num_columns a) ?srcs ws)\<rparr>)
                 = Inr (fill_column b (num_columns a) ?srcs ws)"
      by (rule construct_column [OF invb j lb])
    have "add_at_first_uninitialized copy k a = Inr (fill_column b (num_columns a) ?srcs ws, int (num_columns a))"
      using k guard None b ini mc fl nc
      by (simp add: add_at_first_uninitialized_def scan_first_free [OF inv])
    moreover have "map row_type (rows b) = map row_type (rows a)" by (simp add: rows)
    ultimately show ?thesis
      by (intro that [of b "num_columns a" ws]) (simp_all add: invb ws j None nc cm live rows k)
  qed
qed

lemma destruct_at_live:
  assumes inv: "arch_inv a" and j: "j < num_columns a" and live: "live_bit a j"
  obtains ws where "init_mask a = Some ws"
    and "destruct_at (int j) a =
           Inr (a\<lparr>init_mask := Some (bm_set False j ws), rows := map (\<lambda>r. row_put r j Uninit) (rows a)\<rparr>, True)"
    and "length ws = bit_words (num_columns a)"
proof -
  obtain ws where ws: "init_mask a = Some ws" "length ws = bit_words (num_columns a)"
    using inv j by (cases "init_mask a") (auto simp: arch_inv_def)
  have vj: "is_valid_column a (int j)" using j by (simp add: is_valid_column_def)
  have rd: "row_destroy (int j) r = Inr (row_put r j Uninit)" if "r \<in> set (rows a)" for r
  proof -
    have "row_ok (num_columns a) r" "is_live (row_cell r j) = live_bit a j"
      using inv that j by (auto simp: arch_inv_def list_all_iff)
    with j live show ?thesis by (intro row_destroy_ok) auto
  qed
  have "destruct_at (int j) a =
          Inr (a\<lparr>init_mask := Some (bm_set False j ws), rows := map (\<lambda>r. row_put r j Uninit) (rows a)\<rparr>, True)"
    using vj ws live
    by (simp add: destruct_at_def is_column_initialized_inv [OF inv vj] set_column_initialized_flag_def
                  live_bit_def map_checked_total rd)
  with ws that show ?thesis by blast
qed

lemma destruct_at_live_facts:
  assumes inv: "arch_inv a" and j: "j < num_columns a" and ws: "init_mask a = Some ws"
  defines "a' \<equiv> a\<lparr>init_mask := Some (bm_set False j ws), rows := map (\<lambda>r. row_put r j Uninit) (rows a)\<rparr>"
  shows "arch_inv a'" and "\<And>i. live_bit a' i = (i \<noteq> j \<and> live_bit a i)"
    and "\<And>r i. r < length (rows a) \<Longrightarrow> i < num_columns a \<Longrightarrow>
           row_cell (rows a' ! r) i = (if i = j then Uninit else row_cell (rows a ! r) i)"
proof -
  have lw: "length ws = bit_words (num_columns a)" using inv ws by (simp add: arch_inv_def)
  have ok: "row_ok (num_columns a) r" if "r \<in> set (rows a)" for r
    using inv that by (simp add: arch_inv_def list_all_iff)
  show live: "\<And>i. live_bit a' i = (i \<noteq> j \<and> live_bit a i)"
    using ws lw j by (simp add: a'_def live_bit_def bm_get_set bit_words_less)
  show "\<And>r i. r < length (rows a) \<Longrightarrow> i < num_columns a \<Longrightarrow>
           row_cell (rows a' ! r) i = (if i = j then Uninit else row_cell (rows a ! r) i)"
  proof -
    fix r i assume r: "r < length (rows a)"
    then have "row_ok (num_columns a) (rows a ! r)" by (simp add: ok)
    from row_cell_row_put [OF this j] r
    show "row_cell (rows a' ! r) i = (if i = j then Uninit else row_cell (rows a ! r) i)"
      by (simp add: a'_def)
  qed
  have cells: "is_live (row_cell (row_put r j Uninit) c) = live_bit a' c"
    if "r \<in> set (rows a)" "c < num_columns a" for r c
  proof -
    have "row_cell (row_put r j Uninit) c = (if c = j then Uninit else row_cell r c)"
      using ok [OF that(1)] j by (rule row_cell_row_put)
    moreover have "is_live (row_cell r c) = live_bit a c"
      using inv that by (simp add: arch_inv_def list_all_iff)
    ultimately show ?thesis by (simp add: live)
  qed
  show "arch_inv a'"
    using inv lw cells by (auto simp: a'_def arch_inv_def list_all_iff length_bm_set intro: row_put_ok ok)
qed

section \<open>Properties\<close>

lemma add_at_first_uninitialized_spec:
  assumes inv: "arch_inv a" and k: "0 < k"
    and cp: "case copy of None \<Rightarrow> True | Some vs \<Rightarrow> length vs = num_rows a"
  shows "\<exists>a' c. add_at_first_uninitialized copy k a = Inr (a', c) \<and> arch_inv a' \<and>
     c = int (case first_free a of None \<Rightarrow> num_columns a | Some i \<Rightarrow> i) \<and>
     num_columns a' = (case first_free a of None \<Rightarrow> num_columns a + nat k | Some i \<Rightarrow> num_columns a) \<and>
     live_bit a' (nat c) \<and>
     (\<forall>i < num_columns a'. i \<noteq> nat c \<longrightarrow> live_bit a' i = (i < num_columns a \<and> live_bit a i)) \<and>
     (\<forall>r < num_rows a. row_cell (rows a' ! r) (nat c) =
        Live (case copy of None \<Rightarrow> ss_default (row_type (rows a ! r)) | Some vs \<Rightarrow> vs ! r)) \<and>
     num_rows a' = num_rows a \<and> comp_mask a' = comp_mask a \<and> map row_type (rows a') = map row_type (rows a)"
proof -
  let ?srcs = "copy_sources (num_rows a) copy"
  obtain a1 j ws where eq: "add_at_first_uninitialized copy k a = Inr (fill_column a1 j ?srcs ws, int j)"
    and inv1: "arch_inv a1" and ws: "init_mask a1 = Some ws" and j: "j < num_columns a1"
    and lr: "length (rows a1) = length (rows a)" and nr: "num_rows a1 = num_rows a"
    and cm: "comp_mask a1 = comp_mask a" and rt: "map row_type (rows a1) = map row_type (rows a)"
    and jv: "j = (case first_free a of None \<Rightarrow> num_columns a | Some i \<Rightarrow> i)"
    and nc: "num_columns a1 = (case first_free a of None \<Rightarrow> num_columns a + nat k | Some i \<Rightarrow> num_columns a)"
    and live: "\<And>i. i < num_columns a1 \<Longrightarrow> live_bit a1 i \<longleftrightarrow> i < num_columns a \<and> live_bit a i"
    by (rule add_at_first_uninitialized_result [OF inv k cp]) blast
  have nra: "num_rows a = length (rows a)" using inv by (simp add: arch_inv_def)
  have ls: "length ?srcs = length (rows a1)" using length_copy_sources [OF cp] nra lr by simp
  note F = fill_column_facts [OF inv1 j ls ws]
  have cells: "row_cell (rows (fill_column a1 j ?srcs ws) ! r) j =
        Live (case copy of None \<Rightarrow> ss_default (row_type (rows a ! r)) | Some vs \<Rightarrow> vs ! r)"
    if r: "r < num_rows a" for r
  proof -
    have "row_type (rows a1 ! r) = row_type (rows a ! r)"
      using rt r nra lr by (metis length_map nth_map)
    moreover have "?srcs ! r = (case copy of None \<Rightarrow> None | Some vs \<Rightarrow> Some (vs ! r))"
      using r cp by (auto simp: copy_sources_def split: option.splits)
    ultimately show ?thesis
      using F(7) [of r] r nra lr by (auto split: option.splits)
  qed
  have keep: "num_rows (fill_column a1 j ?srcs ws) = num_rows a"
    "comp_mask (fill_column a1 j ?srcs ws) = comp_mask a"
    "map row_type (rows (fill_column a1 j ?srcs ws)) = map row_type (rows a)"
    using F(3,4,5) nr cm rt by simp_all
  show ?thesis
    using eq F(1,2,6) cells jv nc live keep by (auto simp: jv)
qed


text \<open>Claim C7: AddAtFirstUninitialized on a well-formed archetype never faults (positive chunk, copy source of the right length): it fills the first column that is not live, or grows every row by the chunk when all are live and fills the first new column; the column becomes live in every row with the default or the copied value, every other column keeps its liveness, and the invariant is kept.\<close>

theorem add_at_first_uninitialized_correct:
  assumes inv: "arch_inv a" and k: "0 < k"
    and cp: "case copy of None \<Rightarrow> True | Some vs \<Rightarrow> length vs = num_rows a"
  shows "\<exists>a' c. add_at_first_uninitialized copy k a = Inr (a', c) \<and> arch_inv a' \<and>
     c = int (case first_free a of None \<Rightarrow> num_columns a | Some i \<Rightarrow> i) \<and>
     num_columns a' = (case first_free a of None \<Rightarrow> num_columns a + nat k | Some i \<Rightarrow> num_columns a) \<and>
     live_bit a' (nat c) \<and>
     (\<forall>i < num_columns a'. i \<noteq> nat c \<longrightarrow> live_bit a' i = (i < num_columns a \<and> live_bit a i)) \<and>
     (\<forall>r < num_rows a. row_cell (rows a' ! r) (nat c) =
        Live (case copy of None \<Rightarrow> ss_default (row_type (rows a ! r)) | Some vs \<Rightarrow> vs ! r))"
  using add_at_first_uninitialized_spec [OF inv k cp] by blast

theorem add_at_first_uninitialized_correct_witness:
  "arch_inv (arch_new [3] 2 [\<lparr>ss_uid = 1, ss_size = 4, ss_align = 4, ss_default = 7::nat, ss_super = []\<rparr>])
   \<and> (0::int) < 64
   \<and> (\<exists>a' c. add_at_first_uninitialized None 64
          (arch_new [3] 2 [\<lparr>ss_uid = 1, ss_size = 4, ss_align = 4, ss_default = 7::nat, ss_super = []\<rparr>])
          = Inr (a', c) \<and> c = 0 \<and> num_columns a' = 64)"
proof -
  let ?a = "arch_new [3] 2 [\<lparr>ss_uid = 1, ss_size = 4, ss_align = 4, ss_default = 7::nat, ss_super = []\<rparr>]"
  have inv: "arch_inv ?a" by (rule arch_inv_new)
  have ff: "first_free ?a = None" by (simp add: first_free_def arch_new_def)
  from add_at_first_uninitialized_correct [OF inv, of 64 None] ff inv show ?thesis
    by (auto simp: arch_new_def)
qed
lemma first_free_eq_Some:
  "j < num_columns a \<Longrightarrow> \<not> live_bit a j \<Longrightarrow> \<forall>i < j. live_bit a i \<Longrightarrow> first_free a = Some j"
  by (auto simp: first_free_def find_Some_iff intro!: exI [of _ j])

text \<open>Claim C14: DestructAt faults on an invalid column, returns false and changes nothing on a column that is not live, and on a live column clears its bit and destroys its slot in every row, leaving every other slot and the invariant intact.\<close>

theorem destruct_at_correct:
  assumes inv: "arch_inv a"
  shows "(\<not> is_valid_column a c \<longrightarrow> destruct_at c a = Inl InvalidColumn) \<and>
     (is_valid_column a c \<and> \<not> live_bit a (nat c) \<longrightarrow> destruct_at c a = Inr (a, False)) \<and>
     (is_valid_column a c \<and> live_bit a (nat c) \<longrightarrow>
        (\<exists>a'. destruct_at c a = Inr (a', True) \<and> arch_inv a' \<and> num_columns a' = num_columns a \<and>
              (\<forall>i. live_bit a' i = (i \<noteq> nat c \<and> live_bit a i)) \<and>
              (\<forall>r < num_rows a. \<forall>i < num_columns a.
                 row_cell (rows a' ! r) i = (if i = nat c then Uninit else row_cell (rows a ! r) i))))"
proof (intro conjI impI)
  assume "\<not> is_valid_column a c"
  then show "destruct_at c a = Inl InvalidColumn"
    by (simp add: destruct_at_def is_column_initialized_def)
next
  assume "is_valid_column a c \<and> \<not> live_bit a (nat c)"
  then show "destruct_at c a = Inr (a, False)"
    by (simp add: destruct_at_def is_column_initialized_inv [OF inv])
next
  assume v: "is_valid_column a c \<and> live_bit a (nat c)"
  then have j: "nat c < num_columns a" and c: "int (nat c) = c"
    by (auto simp: is_valid_column_def)
  obtain ws where ws: "init_mask a = Some ws"
    and eq: "destruct_at (int (nat c)) a =
           Inr (a\<lparr>init_mask := Some (bm_set False (nat c) ws), rows := map (\<lambda>r. row_put r (nat c) Uninit) (rows a)\<rparr>, True)"
    using destruct_at_live [OF inv j] v by blast
  note F = destruct_at_live_facts [OF inv j ws]
  have nr: "num_rows a = length (rows a)" using inv by (simp add: arch_inv_def)
  show "\<exists>a'. destruct_at c a = Inr (a', True) \<and> arch_inv a' \<and> num_columns a' = num_columns a \<and>
              (\<forall>i. live_bit a' i = (i \<noteq> nat c \<and> live_bit a i)) \<and>
              (\<forall>r < num_rows a. \<forall>i < num_columns a.
                 row_cell (rows a' ! r) i = (if i = nat c then Uninit else row_cell (rows a ! r) i))"
    using eq F nr c by (intro exI [of _ "a\<lparr>init_mask := Some (bm_set False (nat c) ws),
                                   rows := map (\<lambda>r. row_put r (nat c) Uninit) (rows a)\<rparr>"]) simp
qed

lemma add_at_first_uninitialized_inv:
  assumes "arch_inv a" "0 < k" "case copy of None \<Rightarrow> True | Some vs \<Rightarrow> length vs = num_rows a"
  shows "\<exists>a' c. add_at_first_uninitialized copy k a = Inr (a', c) \<and> arch_inv a'"
proof -
  obtain a1 j ws where eq: "add_at_first_uninitialized copy k a = Inr (fill_column a1 j (copy_sources (num_rows a) copy) ws, int j)"
    and "arch_inv a1" "init_mask a1 = Some ws" "j < num_columns a1" "length (rows a1) = length (rows a)"
    and "num_rows a1 = num_rows a"
    by (rule add_at_first_uninitialized_result [OF assms]) blast
  moreover have "num_rows a = length (rows a)" using assms(1) by (simp add: arch_inv_def)
  moreover have "length (copy_sources (num_rows a) copy) = num_rows a"
    using assms(3) by (rule length_copy_sources)
  ultimately show ?thesis using fill_column_facts(1) by fastforce
qed

lemma destruct_at_frees:
  assumes inv: "arch_inv a" and j: "j < num_columns a" and live: "live_bit a j"
    and d: "destruct_at (int j) a = Inr (a1, b)"
  shows "b \<and> arch_inv a1 \<and> num_columns a1 = num_columns a \<and> (\<forall>i. live_bit a1 i = (i \<noteq> j \<and> live_bit a i)) \<and>
    num_rows a1 = num_rows a \<and> comp_mask a1 = comp_mask a \<and> map row_type (rows a1) = map row_type (rows a)"
proof -
  obtain ws where ws: "init_mask a = Some ws"
    and eq: "destruct_at (int j) a =
           Inr (a\<lparr>init_mask := Some (bm_set False j ws), rows := map (\<lambda>r. row_put r j Uninit) (rows a)\<rparr>, True)"
    using destruct_at_live [OF inv j live] by blast
  from eq d destruct_at_live_facts [OF inv j ws] show ?thesis by (auto simp: comp_def)
qed

text \<open>Column reuse: destroying live column c when every column below c is live, then AddAtFirstUninitialized, returns c again without growing the archetype.\<close>

theorem destruct_then_add_reuses_column:
  assumes inv: "arch_inv a" and j: "j < num_columns a" and live: "live_bit a j"
    and below: "\<forall>i < j. live_bit a i" and k: "0 < k"
    and d: "destruct_at (int j) a = Inr (a1, b)"
    and r: "add_at_first_uninitialized None k a1 = Inr (a2, c)"
  shows "b \<and> c = int j \<and> num_columns a2 = num_columns a"
proof -
  have D: "b" "arch_inv a1" "num_columns a1 = num_columns a" "\<And>i. live_bit a1 i = (i \<noteq> j \<and> live_bit a i)"
    using destruct_at_frees [OF inv j live d] by auto
  have ff: "first_free a1 = Some j"
    using j below D(3,4) by (intro first_free_eq_Some) auto
  obtain a3 j3 ws where eq: "add_at_first_uninitialized None k a1 = Inr (fill_column a3 j3 (copy_sources (num_rows a1) None) ws, int j3)"
    and "arch_inv a3" "init_mask a3 = Some ws" "j3 < num_columns a3" "length (rows a3) = length (rows a1)"
    and "num_rows a3 = num_rows a1" "comp_mask a3 = comp_mask a1" "map row_type (rows a3) = map row_type (rows a1)"
    and jv: "j3 = (case first_free a1 of None \<Rightarrow> num_columns a1 | Some i \<Rightarrow> i)"
    and nc: "num_columns a3 = (case first_free a1 of None \<Rightarrow> num_columns a1 + nat k | Some i \<Rightarrow> num_columns a1)"
    by (rule add_at_first_uninitialized_result [OF D(2) k]) auto
  from eq r have "a2 = fill_column a3 j3 (copy_sources (num_rows a1) None) ws" "c = int j3" by auto
  with ff D(1,3) jv nc show ?thesis by (simp add: fill_column_def)
qed

lemma ex_arch2_inv: "arch_inv ex_arch2"
proof -
  have "arch_inv ex_arch0" by (simp add: ex_arch0_def arch_inv_new)
  then obtain a1 c1 where "add_at_first_uninitialized None 1 ex_arch0 = Inr (a1, c1)" "arch_inv a1"
    using add_at_first_uninitialized_inv [of ex_arch0 1 None] by auto
  moreover from \<open>arch_inv a1\<close> obtain a2 c2 where "add_at_first_uninitialized None 1 a1 = Inr (a2, c2)" "arch_inv a2"
    using add_at_first_uninitialized_inv [of a1 1 None] by auto
  ultimately show ?thesis by (simp add: ex_arch2_def)
qed

theorem destruct_at_correct_witness:
  "arch_inv ex_arch2 \<and> destruct_at 7 ex_arch2 = Inl InvalidColumn \<and>
   (\<exists>a'. destruct_at 0 ex_arch2 = Inr (a', True) \<and> \<not> live_bit a' 0)"
proof -
  have ev: "\<not> is_valid_column ex_arch2 7" "is_valid_column ex_arch2 0" "live_bit ex_arch2 0"
    by code_simp+
  from destruct_at_correct [OF ex_arch2_inv, of 7] destruct_at_correct [OF ex_arch2_inv, of 0] ev ex_arch2_inv
  show ?thesis by auto
qed

theorem destruct_then_add_reuses_column_witness:
  "arch_inv ex_arch2 \<and> 0 < num_columns ex_arch2 \<and> live_bit ex_arch2 0 \<and>
   destruct_at 0 ex_arch2 = Inr (fst (projr (destruct_at 0 ex_arch2)), snd (projr (destruct_at 0 ex_arch2))) \<and>
   add_at_first_uninitialized None 1 (fst (projr (destruct_at 0 ex_arch2))) =
     Inr (fst (projr (add_at_first_uninitialized None 1 (fst (projr (destruct_at 0 ex_arch2))))),
          snd (projr (add_at_first_uninitialized None 1 (fst (projr (destruct_at 0 ex_arch2)))))) \<and>
   snd (projr (add_at_first_uninitialized None 1 (fst (projr (destruct_at 0 ex_arch2))))) = 0"
proof -
  have ev: "0 < num_columns ex_arch2" "live_bit ex_arch2 0"
    "isl (destruct_at 0 ex_arch2) = False"
    "isl (add_at_first_uninitialized None 1 (fst (projr (destruct_at 0 ex_arch2)))) = False"
    by code_simp+
  have d: "destruct_at (int 0) ex_arch2 = Inr (fst (projr (destruct_at 0 ex_arch2)), snd (projr (destruct_at 0 ex_arch2)))"
    using ev(3) by (cases "destruct_at 0 ex_arch2") auto
  have r: "add_at_first_uninitialized None 1 (fst (projr (destruct_at 0 ex_arch2))) =
     Inr (fst (projr (add_at_first_uninitialized None 1 (fst (projr (destruct_at 0 ex_arch2))))),
          snd (projr (add_at_first_uninitialized None 1 (fst (projr (destruct_at 0 ex_arch2))))))"
    using ev(4) by (cases "add_at_first_uninitialized None 1 (fst (projr (destruct_at 0 ex_arch2)))") auto
  from destruct_then_add_reuses_column [OF ex_arch2_inv ev(1) ev(2) _ _ d r] d r ev ex_arch2_inv
  show ?thesis by simp
qed

text \<open>Claim C28: AddUninitialized faults on a non-positive count; otherwise it returns the old column count, grows every row by the count with unconstructed slots, adds only clear live bits and keeps the invariant.\<close>

theorem add_uninitialized_correct:
  assumes inv: "arch_inv a"
  shows "(n \<le> 0 \<longrightarrow> add_uninitialized n a = Inl BadCount) \<and>
    (0 < n \<longrightarrow> (\<exists>a'. add_uninitialized n a = Inr (a', int (num_columns a)) \<and> arch_inv a' \<and>
       num_columns a' = num_columns a + nat n \<and> num_rows a' = num_rows a \<and> comp_mask a' = comp_mask a \<and>
       (\<forall>i < num_columns a'. live_bit a' i = (i < num_columns a \<and> live_bit a i)) \<and>
       (\<forall>r < num_rows a. \<forall>i < num_columns a'.
          row_cell (rows a' ! r) i = (if i < num_columns a then row_cell (rows a ! r) i else Uninit))))"
proof (intro conjI impI)
  assume "n \<le> 0"
  then show "add_uninitialized n a = Inl BadCount" by (simp add: add_uninitialized_def)
next
  assume n: "0 < n"
  obtain b where b: "add_uninitialized n a = Inr (b, int (num_columns a))"
    and nc: "num_columns b = num_columns a + nat n" "num_rows b = num_rows a"
    and cm: "comp_mask b = comp_mask a"
    and rows: "rows b = map (row_grow (num_columns a + nat n)) (rows a)"
    and live: "\<And>j. j < num_columns b \<Longrightarrow> live_bit b j \<longleftrightarrow> j < num_columns a \<and> live_bit a j"
    and "\<exists>ws. init_mask b = Some ws \<and> length ws = bit_words (num_columns b)"
    by (rule add_uninitialized_result [OF inv n]) blast
  have nr: "num_rows a = length (rows a)" using inv by (simp add: arch_inv_def)
  have cells: "row_cell (rows b ! r) i = (if i < num_columns a then row_cell (rows a ! r) i else Uninit)"
    if "r < num_rows a" "i < num_columns b" for r i
  proof -
    have "row_ok (num_columns a) (rows a ! r)" using inv that(1) nr by (simp add: arch_inv_def list_all_iff)
    with that nr nc show ?thesis by (simp add: rows row_cell_row_grow)
  qed
  show "\<exists>a'. add_uninitialized n a = Inr (a', int (num_columns a)) \<and> arch_inv a' \<and>
       num_columns a' = num_columns a + nat n \<and> num_rows a' = num_rows a \<and> comp_mask a' = comp_mask a \<and>
       (\<forall>i < num_columns a'. live_bit a' i = (i < num_columns a \<and> live_bit a i)) \<and>
       (\<forall>r < num_rows a. \<forall>i < num_columns a'.
          row_cell (rows a' ! r) i = (if i < num_columns a then row_cell (rows a ! r) i else Uninit))"
    using b arch_inv_add_uninitialized [OF inv b] nc cm live cells by (intro exI [of _ b]) auto
qed

theorem add_uninitialized_correct_witness:
  "arch_inv ex_arch2 \<and> 0 < (64::int) \<and>
   (\<exists>a'. add_uninitialized 64 ex_arch2 = Inr (a', int (num_columns ex_arch2)) \<and> num_columns a' = num_columns ex_arch2 + 64)"
  using add_uninitialized_correct [OF ex_arch2_inv, of 64] ex_arch2_inv by auto

text \<open>GetCompRow of a component whose signature bit is set is the number of signature bits set below its id (a row index, or a fault when that count is not a valid row).\<close>

theorem get_comp_row_popcount:
  assumes "0 \<le> cid" "nat cid div 64 < length (comp_mask a)" "bm_get (comp_mask a) (nat cid)"
  shows "get_comp_row a cid =
     (if length (filter (bm_get (comp_mask a)) [0..<nat cid]) < num_rows a
      then Inr (int (length (filter (bm_get (comp_mask a)) [0..<nat cid]))) else Inl InvalidRow)"
  using assms by (simp add: get_comp_row_def count_set_below_eq is_valid_row_def Let_def)

theorem get_comp_row_popcount_witness:
  "0 \<le> (1::int) \<and> nat 1 div 64 < length (comp_mask ex_arch2) \<and> bm_get (comp_mask ex_arch2) (nat 1) \<and>
   get_comp_row ex_arch2 1 = Inr 1"
proof -
  have ev: "nat 1 div 64 < length (comp_mask ex_arch2)" "bm_get (comp_mask ex_arch2) (nat 1)"
    "length (filter (bm_get (comp_mask ex_arch2)) [0..<nat 1]) = 1" "num_rows ex_arch2 = 2"
    by code_simp+
  from get_comp_row_popcount [of 1 ex_arch2] ev show ?thesis by simp
qed

text \<open>Claim C29: HasSameSetIdentifierFlags, a word-at-a-time loop, holds exactly when every signature bit of this archetype among the first 64 * ceil(n / 64) bits is also set in the other: the subset test of query matching.\<close>

theorem has_same_set_identifier_flags_iff:
  "has_same_set_identifier_flags a b n \<longleftrightarrow>
     (\<forall>j < 64 * div_round_up n 64. bm_get (comp_mask a) j \<longrightarrow> bm_get (comp_mask b) j)"
  by (simp add: has_same_set_identifier_flags_def words_subset_iff)


theorem has_same_set_identifier_flags_iff_witness:
  "has_same_set_identifier_flags ex_arch2 ex_arch2 2"
  using has_same_set_identifier_flags_iff [of ex_arch2 ex_arch2 2] by simp

lemma scan_words_eq:
  "scan_words ws i n =
     (case find (\<lambda>k. ws ! k \<noteq> 0) [i..<n] of
        None \<Rightarrow> INDEX_NONE
      | Some k \<Rightarrow> (case bit_scan_forward (ws ! k) of None \<Rightarrow> INDEX_NONE | Some b \<Rightarrow> int b + 1 + int k * 64))"
proof (induction ws i n rule: scan_words.induct)
  case (1 ws i n)
  show ?case
  proof (cases "i < n")
    case True
    then have up: "[i..<n] = i # [Suc i..<n]" by (simp add: upt_conv_Cons)
    show ?thesis
    proof (cases "ws ! i = 0")
      case True
      with "1" \<open>i < n\<close> up show ?thesis
        by (simp add: scan_words.simps [of ws i n] bit_scan_forward_zero)
    next
      case False
      then obtain b where "bit_scan_forward (ws ! i) = Some b"
        by (cases "bit_scan_forward (ws ! i)") (auto simp: bit_scan_forward_None)
      with False \<open>i < n\<close> up show ?thesis by (simp add: scan_words.simps [of ws i n])
    qed
  next
    case False
    then show ?thesis by (simp add: scan_words.simps [of ws i n])
  qed
qed

text \<open>The scan of \<open>FindFirstUninitializedRow(0)\<close> stops at the first word with a
  set bit: with column 0 live it returns column 1.\<close>

lemma first_uninitialized_row_live_zero:
  assumes inv: "arch_inv a" and nc: "0 < num_columns a" and live0: "live_bit a 0"
  shows "find_first_uninitialized_row a 0 = Inr 1"
proof -
  obtain ws where ws: "init_mask a = Some ws" "length ws = bit_words (num_columns a)"
    using inv nc by (cases "init_mask a") (auto simp: arch_inv_def)
  have w0: "0 < bit_words (num_columns a)" using nc bit_words_less [of 0 "num_columns a"] by simp
  have b0: "bit (ws ! 0) 0" using live0 ws by (simp add: live_bit_def bm_get_bit)
  then have ne: "ws ! 0 \<noteq> 0" by auto
  have "bit_scan_forward (ws ! 0) = Some 0" using b0 by (simp add: bit_scan_forward_Some)
  with ws w0 ne show ?thesis
    by (simp add: find_first_uninitialized_row_def scan_words_eq upt_conv_Cons)
qed

text \<open>Claim C30: FindFirstUninitializedRow scans for set (live) bits, not clear ones: on any well-formed archetype whose column 0 is live it returns column 1, whether or not column 1 is live.\<close>

theorem find_first_uninitialized_row_after_live_zero:
  assumes inv: "arch_inv a" and nc: "0 < num_columns a" and live0: "live_bit a 0"
  shows "find_first_uninitialized_row a 0 = Inr 1"
  using first_uninitialized_row_live_zero [OF assms] .

theorem find_first_uninitialized_row_after_live_zero_witness:
  "arch_inv ex_arch2 \<and> 0 < num_columns ex_arch2 \<and> live_bit ex_arch2 0 \<and>
   find_first_uninitialized_row ex_arch2 0 = Inr 1 \<and> is_column_initialized ex_arch2 1 = Inr True"
proof -
  have ev: "0 < num_columns ex_arch2" "live_bit ex_arch2 0" "is_column_initialized ex_arch2 1 = Inr True"
    by code_simp+
  from find_first_uninitialized_row_after_live_zero [OF ex_arch2_inv ev(1,2)] ev ex_arch2_inv
  show ?thesis by simp
qed

end
