(* ===== verification/EntityIndex.thy ===== *)
theory EntityIndex
  imports ECS_Prelude
begin

text \<open>
  The entity index \<open>EntityRecords\<close> of \<open>UECSSubsystem\<close> is an engine
  \<open>TSparseArray\<close>: a list of slots, each free or holding a record.  Its code is
  not in the repository; it is modelled from the spec (section 4.3): a new
  element takes the lowest free slot (\<open>EmplaceAtLowestFreeIndex\<close> with a search
  start of zero, as every call site passes), \<open>RemoveAt\<close> frees a slot without
  moving any other, \<open>IsValidIndex\<close> tests bounds and occupancy.
\<close>

type_synonym 'a sparse_array = "'a option list"

primrec lowest_free :: "'a sparse_array \<Rightarrow> nat" where
  "lowest_free [] = 0"
| "lowest_free (x # xs) = (case x of None \<Rightarrow> 0 | Some _ \<Rightarrow> Suc (lowest_free xs))"

definition emplace_at_lowest_free_index :: "'a \<Rightarrow> 'a sparse_array \<Rightarrow> nat \<times> 'a sparse_array" where
  "emplace_at_lowest_free_index v xs =
     (let i = lowest_free xs in (i, if i < length xs then xs[i := Some v] else xs @ [Some v]))"

definition sparse_is_valid_index :: "'a sparse_array \<Rightarrow> int \<Rightarrow> bool" where
  "sparse_is_valid_index xs i \<longleftrightarrow> 0 \<le> i \<and> nat i < length xs \<and> xs ! nat i \<noteq> None"

definition sparse_get :: "'a sparse_array \<Rightarrow> int \<Rightarrow> 'a checked" where
  "sparse_get xs i =
     (if sparse_is_valid_index xs i then (case xs ! nat i of None \<Rightarrow> Inl InvalidIndex | Some v \<Rightarrow> Inr v)
      else Inl InvalidIndex)"

definition sparse_remove_at :: "int \<Rightarrow> 'a sparse_array \<Rightarrow> 'a sparse_array checked" where
  "sparse_remove_at i xs = (if sparse_is_valid_index xs i then Inr (xs[nat i := None]) else Inl InvalidIndex)"

section \<open>Lemmas\<close>

lemma lowest_free_le: "lowest_free xs \<le> length xs"
  by (induction xs) (auto split: option.splits)

lemma lowest_free_below: "j < lowest_free xs \<Longrightarrow> xs ! j \<noteq> None"
proof (induction xs arbitrary: j)
  case Nil
  then show ?case by simp
next
  case (Cons x xs)
  then show ?case by (cases x; cases j) auto
qed

lemma lowest_free_at: "lowest_free xs < length xs \<Longrightarrow> xs ! lowest_free xs = None"
proof (induction xs)
  case Nil
  then show ?case by simp
next
  case (Cons x xs)
  then show ?case by (cases x) auto
qed

lemma lowest_free_remove:
  "k < length xs \<Longrightarrow> \<forall>j < k. xs ! j \<noteq> None \<Longrightarrow> lowest_free (xs[k := None]) = k"
proof (induction xs arbitrary: k)
  case Nil
  then show ?case by simp
next
  case (Cons x xs)
  show ?case
  proof (cases k)
    case 0
    then show ?thesis by simp
  next
    case (Suc k')
    then have "x \<noteq> None" using Cons.prems(2) by auto
    moreover have "lowest_free (xs[k' := None]) = k'"
      using Cons.prems Suc by (intro Cons.IH) auto
    ultimately show ?thesis using Suc by (auto split: option.splits)
  qed
qed

text \<open>The slot an emplace takes is the least one not in use.\<close>

lemma lowest_free_least:
  "lowest_free xs = (LEAST i. \<not> sparse_is_valid_index xs (int i))"
proof (rule Least_equality [symmetric])
  show "\<not> sparse_is_valid_index xs (int (lowest_free xs))"
    using lowest_free_at [of xs] by (auto simp: sparse_is_valid_index_def)
next
  fix j assume "\<not> sparse_is_valid_index xs (int j)"
  with lowest_free_below [of j xs] lowest_free_le [of xs] show "lowest_free xs \<le> j"
    by (force simp: sparse_is_valid_index_def)
qed

lemma emplace_valid:
  "emplace_at_lowest_free_index v xs = (i, ys) \<Longrightarrow>
     i = lowest_free xs \<and> sparse_get ys (int i) = Inr v \<and>
     (\<forall>j. j \<noteq> int i \<longrightarrow> sparse_get ys j = sparse_get xs j) \<and>
     length ys = max (length xs) (Suc i)"
  using lowest_free_le [of xs] lowest_free_at [of xs]
  by (auto simp: emplace_at_lowest_free_index_def Let_def sparse_get_def sparse_is_valid_index_def
                 nth_append nat_eq_iff2 split: if_splits)

lemma remove_at_result:
  "sparse_remove_at i xs = Inr ys \<Longrightarrow>
     sparse_is_valid_index xs i \<and> \<not> sparse_is_valid_index ys i \<and>
     (\<forall>j. j \<noteq> i \<longrightarrow> sparse_get ys j = sparse_get xs j) \<and> length ys = length xs"
  by (auto simp: sparse_remove_at_def sparse_get_def sparse_is_valid_index_def nat_eq_iff2
           split: if_splits)

end
