(* ===== verification/TypeRegistry.thy ===== *)
theory TypeRegistry
  imports ECS_Prelude "HOL-Library.Product_Lexorder"
begin

text \<open>
  The type registry of \<open>UECSSubsystem\<close>: \<open>RegisteredComponents\<close> and
  \<open>RegisteredTags\<close> (\<open>FCompDescription\<close>, \<open>FTagDescription\<close> of
  \<open>ECSTypeDescriptions.h\<close>), filled and sorted by
  \<open>RegisterComponentsAndTags\<close>, and searched by \<open>FindCompTypeID\<close> /
  \<open>FindTagTypeID\<close> with the engine's \<open>Algo::BinarySearchBy\<close> over
  \<open>Algo::LowerBoundBy\<close> (engine code, modelled after its loop).  The id of a
  type is its index in the sorted list.  The main fact: on a list sorted strictly
  by the comparator the binary search finds exactly the index a linear search
  finds, so every registered type is found at its own index.
\<close>

record 'v type_desc =
  td_type :: "'v script_struct"
  td_refs :: "(int \<times> int) list"

section \<open>Comparators\<close>

text \<open>The lambdas of \<open>RegisterComponentsAndTags\<close> and \<open>FindCompTypeID\<close>
  (sz, then unique id) and of the tag functions (unique id).\<close>

definition size_uid_less :: "'v script_struct \<Rightarrow> 'v script_struct \<Rightarrow> bool" where
  "size_uid_less a b =
     (let sa = ss_size a; sb = ss_size b in if sa \<noteq> sb then sa < sb else ss_uid a < ss_uid b)"

definition uid_less :: "'v script_struct \<Rightarrow> 'v script_struct \<Rightarrow> bool" where
  "uid_less a b \<longleftrightarrow> ss_uid a < ss_uid b"

section \<open>Binary search\<close>

text \<open>\<open>Algo::LowerBoundBy\<close>: halve the window \<open>[Start, Start + Size)\<close>, moving
  \<open>Start\<close> past the middle element when it is less than the value.\<close>

function lower_bound_loop ::
  "('a \<Rightarrow> 'b) \<Rightarrow> ('b \<Rightarrow> 'c \<Rightarrow> bool) \<Rightarrow> 'a list \<Rightarrow> 'c \<Rightarrow> nat \<Rightarrow> nat \<Rightarrow> nat" where
  "lower_bound_loop proj lt xs v st sz =
     (if 0 < sz then
        (let left = sz mod 2; half = sz div 2; check = st + half
         in lower_bound_loop proj lt xs v
              (if lt (proj (xs ! check)) v then check + left else st) half)
      else st)"
  by pat_completeness auto
termination
  by (relation "measure (\<lambda>(proj, lt, xs, v, st, sz). sz)") auto

declare lower_bound_loop.simps [simp del]

definition lower_bound_by :: "('a \<Rightarrow> 'b) \<Rightarrow> ('b \<Rightarrow> 'c \<Rightarrow> bool) \<Rightarrow> 'a list \<Rightarrow> 'c \<Rightarrow> nat" where
  "lower_bound_by proj lt xs v = lower_bound_loop proj lt xs v 0 (length xs)"

text \<open>\<open>Algo::BinarySearchBy\<close>: the lower bound, if the value is not less than
  the element found there; otherwise \<open>INDEX_NONE\<close>.\<close>

definition binary_search_by :: "('a \<Rightarrow> 'b) \<Rightarrow> ('b \<Rightarrow> 'b \<Rightarrow> bool) \<Rightarrow> 'a list \<Rightarrow> 'b \<Rightarrow> int" where
  "binary_search_by proj lt xs v =
     (let i = lower_bound_by proj lt xs v
      in if i < length xs \<and> \<not> lt v (proj (xs ! i)) then int i else INDEX_NONE)"

section \<open>Registration\<close>

text \<open>The loop of \<open>RegisterComponentsAndTags\<close> over all script structs: the two
  base structs are skipped, children of the component base become components,
  other children of the tag base become tags, in iteration order.\<close>

fun classify_structs ::
  "'v script_struct \<Rightarrow> 'v script_struct \<Rightarrow> 'v script_struct list \<Rightarrow>
   'v script_struct list \<times> 'v script_struct list" where
  "classify_structs cb tb [] = ([], [])"
| "classify_structs cb tb (s # ss) =
     (case classify_structs cb tb ss of (cs, ts) \<Rightarrow>
        if s = cb \<or> s = tb then (cs, ts)
        else if is_child_of s cb then (s # cs, ts)
        else if is_child_of s tb then (cs, s # ts)
        else (cs, ts))"

definition new_desc :: "'v script_struct \<Rightarrow> 'v type_desc" where
  "new_desc s = \<lparr>td_type = s, td_refs = []\<rparr>"

text \<open>\<open>Emplace\<close> the new descriptions, then \<open>Sort\<close> both arrays with the
  comparators (an unstable sort; the keys of distinct types are distinct, so every
  sort gives the same order, here a stable one).\<close>

definition register_components_and_tags ::
  "'v script_struct \<Rightarrow> 'v script_struct \<Rightarrow> 'v script_struct list \<Rightarrow>
   'v type_desc list \<Rightarrow> 'v type_desc list \<Rightarrow> 'v type_desc list \<times> 'v type_desc list" where
  "register_components_and_tags cb tb ss comps tags =
     (case classify_structs cb tb ss of (cs, ts) \<Rightarrow>
        (sort_key (\<lambda>d. size_uid_key (td_type d)) (comps @ map new_desc cs),
         sort_key (\<lambda>d. ss_uid (td_type d)) (tags @ map new_desc ts)))"

text \<open>\<open>FindCompTypeID\<close> and \<open>FindTagTypeID\<close>.\<close>

definition find_comp_type_id :: "'v script_struct \<Rightarrow> 'v type_desc list \<Rightarrow> 'v script_struct \<Rightarrow> int checked" where
  "find_comp_type_id cb comps t =
     (if comps = [] then Inl NoTypesRegistered
      else if \<not> is_child_of t cb then Inl NotDerived
      else Inr (binary_search_by td_type size_uid_less comps t))"

definition find_tag_type_id :: "'v script_struct \<Rightarrow> 'v type_desc list \<Rightarrow> 'v script_struct \<Rightarrow> int checked" where
  "find_tag_type_id tb tags t =
     (if tags = [] then Inl NoTypesRegistered
      else if \<not> is_child_of t tb then Inl NotDerived
      else Inr (binary_search_by td_type uid_less tags t))"

text \<open>The reference the binary search is compared with: the first index whose
  key equals the value's.\<close>

definition key_index :: "('a \<Rightarrow> 'k) \<Rightarrow> 'a list \<Rightarrow> 'k \<Rightarrow> int" where
  "key_index key xs k =
     (case find (\<lambda>i. key (xs ! i) = k) [0..<length xs] of None \<Rightarrow> INDEX_NONE | Some i \<Rightarrow> int i)"

section \<open>Fixtures\<close>

text \<open>A small type universe: the two base structs, two components of sizes 16
  and 4 (registered in the opposite order), and one tag.\<close>

definition ex_comp_base :: "nat script_struct" where
  "ex_comp_base = \<lparr>ss_uid = 0, ss_size = 1, ss_align = 1, ss_default = 0, ss_super = []\<rparr>"

definition ex_tag_base :: "nat script_struct" where
  "ex_tag_base = \<lparr>ss_uid = 1, ss_size = 1, ss_align = 1, ss_default = 0, ss_super = []\<rparr>"

definition ex_c16 :: "nat script_struct" where
  "ex_c16 = \<lparr>ss_uid = 2, ss_size = 16, ss_align = 8, ss_default = 5, ss_super = [0]\<rparr>"

definition ex_c4 :: "nat script_struct" where
  "ex_c4 = \<lparr>ss_uid = 3, ss_size = 4, ss_align = 4, ss_default = 6, ss_super = [0]\<rparr>"

definition ex_t :: "nat script_struct" where
  "ex_t = \<lparr>ss_uid = 4, ss_size = 1, ss_align = 1, ss_default = 0, ss_super = [1]\<rparr>"

definition ex_structs :: "nat script_struct list" where
  "ex_structs = [ex_comp_base, ex_c16, ex_t, ex_tag_base, ex_c4]"

definition ex_registry :: "nat type_desc list \<times> nat type_desc list" where
  "ex_registry = register_components_and_tags ex_comp_base ex_tag_base ex_structs [] []"

section \<open>Lemmas\<close>

lemma size_uid_less_key: "size_uid_less a b \<longleftrightarrow> size_uid_key a < size_uid_key b"
  by (auto simp: size_uid_less_def size_uid_key_def Let_def less_prod_def)

lemma uid_less_key: "uid_less a b \<longleftrightarrow> ss_uid a < ss_uid b"
  by (simp add: uid_less_def)

text \<open>The loop invariant of the lower bound: everything below \<open>Start\<close> is less
  than the value, nothing from \<open>Start + Size\<close> on is.\<close>

lemma lower_bound_loop_0: "lower_bound_loop proj lt xs v st 0 = st"
  by (simp add: lower_bound_loop.simps)

lemma lower_bound_loop_correct:
  "(\<forall>i j. i \<le> j \<longrightarrow> j < length xs \<longrightarrow> lt (proj (xs ! j)) v \<longrightarrow> lt (proj (xs ! i)) v) \<Longrightarrow>
    st + sz \<le> length xs \<Longrightarrow> (\<forall>i < st. lt (proj (xs ! i)) v) \<Longrightarrow>
    (\<forall>i. st + sz \<le> i \<longrightarrow> i < length xs \<longrightarrow> \<not> lt (proj (xs ! i)) v) \<Longrightarrow>
    lower_bound_loop proj lt xs v st sz \<le> length xs \<and>
    (\<forall>i < lower_bound_loop proj lt xs v st sz. lt (proj (xs ! i)) v) \<and>
    (\<forall>i. lower_bound_loop proj lt xs v st sz \<le> i \<longrightarrow> i < length xs \<longrightarrow> \<not> lt (proj (xs ! i)) v)"
proof (induction proj lt xs v st sz rule: lower_bound_loop.induct)
  case (1 proj lt xs v st sz)
  note mono = "1.prems"(1)
  show ?case
  proof (cases "0 < sz")
    case False
    then have "sz = 0" by simp
    with "1.prems" show ?thesis by (simp add: lower_bound_loop_0)
  next
    case True
    define half where "half = sz div 2"
    define left where "left = sz mod 2"
    define check where "check = st + half"
    have szh: "sz = half + half + left" and l: "left \<le> 1" and hs: "half < sz"
      using True by (simp_all add: half_def left_def) (metis div_mult_mod_eq mult_2_right)
    have ck: "check < length xs" using "1.prems"(2) hs by (simp add: check_def)
    have step: "lower_bound_loop proj lt xs v st sz =
        lower_bound_loop proj lt xs v (if lt (proj (xs ! check)) v then check + left else st) half"
      using True by (simp add: lower_bound_loop.simps [of proj lt xs v st sz] Let_def
                                half_def left_def check_def)
    show ?thesis
    proof (cases "lt (proj (xs ! check)) v")
      case less: True
      have below: "\<forall>i < check + left. lt (proj (xs ! i)) v"
      proof (intro allI impI)
        fix i assume "i < check + left"
        then have "i \<le> check" using l by linarith
        with ck less mono show "lt (proj (xs ! i)) v" by blast
      qed
      have eq: "check + left + half = st + sz" using szh by (simp add: check_def)
      note IH = "1.IH" [OF True left_def half_def check_def, unfolded if_P [OF less], OF mono]
      show ?thesis unfolding step if_P [OF less]
        by (rule IH) (use eq "1.prems"(2,4) below in auto)
    next
      case ge: False
      have above: "\<forall>i. st + half \<le> i \<longrightarrow> i < length xs \<longrightarrow> \<not> lt (proj (xs ! i)) v"
        using ge mono check_def by blast
      note IH = "1.IH" [OF True left_def half_def check_def, unfolded if_not_P [OF ge], OF mono]
      show ?thesis unfolding step if_not_P [OF ge]
        by (rule IH) (use hs "1.prems"(2,3) above in auto)
    qed
  qed
qed

lemma lower_bound_by_correct:
  "(\<forall>i j. i \<le> j \<longrightarrow> j < length xs \<longrightarrow> lt (proj (xs ! j)) v \<longrightarrow> lt (proj (xs ! i)) v) \<Longrightarrow>
    lower_bound_by proj lt xs v \<le> length xs \<and>
    (\<forall>i < lower_bound_by proj lt xs v. lt (proj (xs ! i)) v) \<and>
    (\<forall>i. lower_bound_by proj lt xs v \<le> i \<longrightarrow> i < length xs \<longrightarrow> \<not> lt (proj (xs ! i)) v)"
  unfolding lower_bound_by_def by (rule lower_bound_loop_correct) auto

lemma key_index_Some:
  "i < length xs \<Longrightarrow> key (xs ! i) = k \<Longrightarrow> (\<forall>j < i. key (xs ! j) \<noteq> k) \<Longrightarrow>
   key_index key xs k = int i"
proof -
  assume i: "i < length xs" "key (xs ! i) = k" "\<forall>j < i. key (xs ! j) \<noteq> k"
  have "find (\<lambda>i. key (xs ! i) = k) [0..<length xs] = Some i"
    using i by (subst find_Some_iff) (auto intro!: exI [of _ i])
  then show ?thesis by (simp add: key_index_def)
qed

lemma key_index_None:
  assumes "\<forall>j < length xs. key (xs ! j) \<noteq> k"
  shows "key_index key xs k = INDEX_NONE"
proof -
  have "find (\<lambda>i. key (xs ! i) = k) [0..<length xs] = None"
    using assms by (auto simp: find_None_iff)
  then show ?thesis by (simp add: key_index_def)
qed

text \<open>On a list whose keys strictly increase, the binary search of the engine
  equals the linear search for the key.\<close>

lemma binary_search_by_eq_key_index:
  fixes key :: "'b \<Rightarrow> 'k::linorder"
  assumes lt: "\<And>a b. lt a b \<longleftrightarrow> key a < key b"
    and sorted: "sorted_wrt (\<lambda>x y. key (proj x) < key (proj y)) xs"
  shows "binary_search_by proj lt xs v = key_index (\<lambda>x. key (proj x)) xs (key v)"
proof -
  have le: "i \<le> j \<Longrightarrow> j < length xs \<Longrightarrow> key (proj (xs ! i)) \<le> key (proj (xs ! j))" for i j
    using sorted by (cases "i = j") (auto simp: sorted_wrt_iff_nth_less intro: less_imp_le)
  have mono: "\<forall>i j. i \<le> j \<longrightarrow> j < length xs \<longrightarrow> lt (proj (xs ! j)) v \<longrightarrow> lt (proj (xs ! i)) v"
    using le by (auto simp: lt intro: le_less_trans)
  define r where "r = lower_bound_by proj lt xs v"
  have r: "r \<le> length xs" "\<forall>i < r. key (proj (xs ! i)) < key v"
    "\<forall>i. r \<le> i \<longrightarrow> i < length xs \<longrightarrow> key v \<le> key (proj (xs ! i))"
    using lower_bound_by_correct [where xs = xs and lt = lt and proj = proj and v = v, OF mono] by (auto simp: r_def lt not_less)
  show ?thesis
  proof (cases "r < length xs \<and> \<not> key v < key (proj (xs ! r))")
    case True
    then have "key (proj (xs ! r)) = key v" using r(3) by (simp add: not_less eq_iff)
    then have "key_index (\<lambda>x. key (proj x)) xs (key v) = int r"
      using True r(2) by (intro key_index_Some) auto
    with True show ?thesis by (simp add: binary_search_by_def r_def [symmetric] lt Let_def)
  next
    case False
    have "\<forall>j < length xs. key (proj (xs ! j)) \<noteq> key v"
    proof (intro allI impI)
      fix j assume j: "j < length xs"
      show "key (proj (xs ! j)) \<noteq> key v"
      proof (cases "j < r")
        case True with r(2) show ?thesis by auto
      next
        case False
        then have "r < length xs" "key v < key (proj (xs ! r))" "r \<le> j"
          using j \<open>\<not> (r < length xs \<and> \<not> key v < key (proj (xs ! r)))\<close> by auto
        with le [of r j] j show ?thesis by auto
      qed
    qed
    then have "key_index (\<lambda>x. key (proj x)) xs (key v) = INDEX_NONE" by (rule key_index_None)
    with False show ?thesis by (simp add: binary_search_by_def r_def [symmetric] lt Let_def)
  qed
qed

lemma distinct_size_uid_key:
  "distinct (map ss_uid xs) \<Longrightarrow> distinct (map size_uid_key xs)"
  by (induction xs) (auto simp: size_uid_key_def)

lemma classify_structs_filter:
  "classify_structs cb tb ss =
     (filter (\<lambda>s. s \<noteq> cb \<and> s \<noteq> tb \<and> is_child_of s cb) ss,
      filter (\<lambda>s. s \<noteq> cb \<and> s \<noteq> tb \<and> \<not> is_child_of s cb \<and> is_child_of s tb) ss)"
  by (induction ss) auto

lemma classify_structs_facts:
  "classify_structs cb tb ss = (cs, ts) \<Longrightarrow> distinct (map ss_uid ss) \<Longrightarrow>
   distinct (map ss_uid cs) \<and> distinct (map ss_uid ts) \<and>
   set cs = {s \<in> set ss. s \<noteq> cb \<and> s \<noteq> tb \<and> is_child_of s cb} \<and>
   set ts = {s \<in> set ss. s \<noteq> cb \<and> s \<noteq> tb \<and> \<not> is_child_of s cb \<and> is_child_of s tb}"
proof -
  assume c: "classify_structs cb tb ss = (cs, ts)" and d: "distinct (map ss_uid ss)"
  have "cs = filter (\<lambda>s. s \<noteq> cb \<and> s \<noteq> tb \<and> is_child_of s cb) ss"
    "ts = filter (\<lambda>s. s \<noteq> cb \<and> s \<noteq> tb \<and> \<not> is_child_of s cb \<and> is_child_of s tb) ss"
    using c by (simp_all add: classify_structs_filter)
  with d show ?thesis by (simp add: distinct_map_filter)
qed

lemma distinct_map_sort_key: "distinct (map g (sort_key f xs)) = distinct (map g xs)"
  by (metis distinct_card card_distinct length_map length_sort set_map set_sort)

lemma sorted_wrt_sort_key_strict:
  fixes f :: "'a \<Rightarrow> 'k::linorder"
  assumes "distinct (map f xs)"
  shows "sorted_wrt (\<lambda>x y. f x < f y) (sort_key f xs)"
proof -
  have "sorted (map f (sort_key f xs))" "distinct (map f (sort_key f xs))"
    using assms by (simp_all add: distinct_map_sort_key)
  then have "sorted_wrt (<) (map f (sort_key f xs))" by (simp add: strict_sorted_iff)
  then show ?thesis by (simp add: sorted_wrt_map)
qed

lemma register_comps_facts:
  assumes "distinct (map ss_uid ss)"
  shows "distinct (map (\<lambda>d. size_uid_key (td_type d)) (fst (register_components_and_tags cb tb ss [] []))) \<and>
    sorted_wrt (\<lambda>x y. size_uid_key (td_type x) < size_uid_key (td_type y))
      (fst (register_components_and_tags cb tb ss [] [])) \<and>
    (\<forall>d \<in> set (fst (register_components_and_tags cb tb ss [] [])). is_child_of (td_type d) cb)"
proof -
  obtain cs ts where c: "classify_structs cb tb ss = (cs, ts)" by fastforce
  note f = classify_structs_facts [OF c assms]
  have r: "fst (register_components_and_tags cb tb ss [] []) =
      sort_key (\<lambda>d. size_uid_key (td_type d)) (map new_desc cs)"
    by (simp add: register_components_and_tags_def c)
  have m: "map (\<lambda>d. size_uid_key (td_type d)) (map new_desc cs) = map size_uid_key cs"
    by (simp add: new_desc_def)
  have d: "distinct (map (\<lambda>d. size_uid_key (td_type d)) (map new_desc cs))"
    unfolding m using f by (simp add: distinct_size_uid_key)
  have ch: "\<forall>d \<in> set (map new_desc cs). is_child_of (td_type d) cb"
    using f by (auto simp: new_desc_def)
  show ?thesis unfolding r
    using d ch sorted_wrt_sort_key_strict [OF d] by (simp add: distinct_map_sort_key)
qed

lemma register_tags_facts:
  assumes "distinct (map ss_uid ss)"
  shows "distinct (map (\<lambda>d. ss_uid (td_type d)) (snd (register_components_and_tags cb tb ss [] []))) \<and>
    sorted_wrt (\<lambda>x y. ss_uid (td_type x) < ss_uid (td_type y))
      (snd (register_components_and_tags cb tb ss [] [])) \<and>
    (\<forall>d \<in> set (snd (register_components_and_tags cb tb ss [] [])). is_child_of (td_type d) tb)"
proof -
  obtain cs ts where c: "classify_structs cb tb ss = (cs, ts)" by fastforce
  note f = classify_structs_facts [OF c assms]
  have r: "snd (register_components_and_tags cb tb ss [] []) =
      sort_key (\<lambda>d. ss_uid (td_type d)) (map new_desc ts)"
    by (simp add: register_components_and_tags_def c)
  have m: "map (\<lambda>d. ss_uid (td_type d)) (map new_desc ts) = map ss_uid ts"
    by (simp add: new_desc_def)
  have d: "distinct (map (\<lambda>d. ss_uid (td_type d)) (map new_desc ts))"
    unfolding m using f by simp
  have ch: "\<forall>d \<in> set (map new_desc ts). is_child_of (td_type d) tb"
    using f by (auto simp: new_desc_def)
  show ?thesis unfolding r
    using d ch sorted_wrt_sort_key_strict [OF d] by (simp add: distinct_map_sort_key)
qed

lemma key_index_distinct:
  "distinct (map key xs) \<Longrightarrow> i < length xs \<Longrightarrow> key_index key xs (key (xs ! i)) = int i"
  by (rule key_index_Some) (auto simp: distinct_conv_nth)

section \<open>Properties\<close>

text \<open>Claim C31: FindCompTypeID on a registry sorted strictly by (size, unique id)
  and a type derived from the component base never faults and returns the index
  a linear search for the type's (size, unique id) finds, INDEX_NONE when there
  is none: the engine's binary search is a correct search.\<close>

theorem find_comp_type_id_eq_linear:
  assumes "sorted_wrt (\<lambda>x y. size_uid_key (td_type x) < size_uid_key (td_type y)) comps"
    and "comps \<noteq> []" and "is_child_of t cb"
  shows "find_comp_type_id cb comps t =
    Inr (key_index (\<lambda>d. size_uid_key (td_type d)) comps (size_uid_key t))"
  using assms binary_search_by_eq_key_index [of size_uid_less size_uid_key td_type comps t]
  by (simp add: find_comp_type_id_def size_uid_less_key)

theorem find_comp_type_id_eq_linear_witness:
  "find_comp_type_id ex_comp_base (fst ex_registry) ex_c16 = Inr 1"
proof -
  have h: "sorted_wrt (\<lambda>x y. size_uid_key (td_type x) < size_uid_key (td_type y)) (fst ex_registry)"
    "fst ex_registry \<noteq> []" "is_child_of ex_c16 ex_comp_base"
    by code_simp+
  have "key_index (\<lambda>d. size_uid_key (td_type d)) (fst ex_registry) (size_uid_key ex_c16) = 1"
    by code_simp
  with find_comp_type_id_eq_linear [OF h] show ?thesis by simp
qed

text \<open>Claim C32: Registration round trip: after RegisterComponentsAndTags over
  types with distinct unique ids, FindCompTypeID of the type of the i-th
  registered component is i.\<close>

theorem registered_comp_roundtrip:
  assumes "distinct (map ss_uid ss)"
    and "i < length (fst (register_components_and_tags cb tb ss [] []))"
  shows "find_comp_type_id cb (fst (register_components_and_tags cb tb ss [] []))
      (td_type (fst (register_components_and_tags cb tb ss [] []) ! i)) = Inr (int i)"
proof -
  let ?cs = "fst (register_components_and_tags cb tb ss [] [])"
  note f = register_comps_facts [OF assms(1), of cb tb]
  have "binary_search_by td_type size_uid_less ?cs (td_type (?cs ! i)) = int i"
    using f assms(2)
      binary_search_by_eq_key_index [of size_uid_less size_uid_key td_type ?cs "td_type (?cs ! i)"]
      key_index_distinct [of "\<lambda>d. size_uid_key (td_type d)" ?cs i]
    by (simp add: size_uid_less_key)
  moreover have "?cs \<noteq> []" "is_child_of (td_type (?cs ! i)) cb"
    using f assms(2) by auto
  ultimately show ?thesis by (simp add: find_comp_type_id_def)
qed

theorem registered_comp_roundtrip_witness:
  "find_comp_type_id ex_comp_base (fst ex_registry) (td_type (fst ex_registry ! 0)) = Inr 0"
proof -
  have h: "distinct (map ss_uid ex_structs)"
    "0 < length (fst (register_components_and_tags ex_comp_base ex_tag_base ex_structs [] []))"
    by code_simp+
  from registered_comp_roundtrip [OF h] show ?thesis by (simp add: ex_registry_def)
qed

text \<open>Registration round trip for tags: after RegisterComponentsAndTags
  over types with distinct unique ids, FindTagTypeID of the type of the i-th
  registered tag is i.\<close>

theorem registered_tag_roundtrip:
  assumes "distinct (map ss_uid ss)"
    and "i < length (snd (register_components_and_tags cb tb ss [] []))"
  shows "find_tag_type_id tb (snd (register_components_and_tags cb tb ss [] []))
      (td_type (snd (register_components_and_tags cb tb ss [] []) ! i)) = Inr (int i)"
proof -
  let ?ts = "snd (register_components_and_tags cb tb ss [] [])"
  note f = register_tags_facts [OF assms(1), of cb tb]
  have "binary_search_by td_type uid_less ?ts (td_type (?ts ! i)) = int i"
    using f assms(2)
      binary_search_by_eq_key_index [of uid_less ss_uid td_type ?ts "td_type (?ts ! i)"]
      key_index_distinct [of "\<lambda>d. ss_uid (td_type d)" ?ts i]
    by (simp add: uid_less_key)
  moreover have "?ts \<noteq> []" "is_child_of (td_type (?ts ! i)) tb"
    using f assms(2) by auto
  ultimately show ?thesis by (simp add: find_tag_type_id_def)
qed

theorem registered_tag_roundtrip_witness:
  "find_tag_type_id ex_tag_base (snd ex_registry) (td_type (snd ex_registry ! 0)) = Inr 0"
proof -
  have h: "distinct (map ss_uid ex_structs)"
    "0 < length (snd (register_components_and_tags ex_comp_base ex_tag_base ex_structs [] []))"
    by code_simp+
  from registered_tag_roundtrip [OF h] show ?thesis by (simp add: ex_registry_def)
qed

end
