(* ===== verification/ECSSubsystem.thy ===== *)
theory ECSSubsystem
  imports Archetype EntityIndex TypeRegistry
begin

text \<open>
  \<open>UECSSubsystem\<close> of \<open>ECSSubsystem.h\<close>: the entity index, the type registry
  and the archetype list, with the operations that find or create the archetype
  of a signature (\<open>InternalFindArchetypeID\<close>), spawn an entity with default or
  given component values (\<open>InternalSpawnEntity\<close>,
  \<open>InternalSpawnEntityWithEmplace\<close>), destroy it and look it up.  A signature
  is the list of component types and the list of tag types of the template
  arguments, in the order written.  The per-instantiation static caches of
  \<open>GetCompTypeID\<close> and of the signature mask are recomputed at each call: the
  registry they read is fixed after \<open>Initialize\<close>, so the values agree.
\<close>

unbundle bit_operations_syntax

record entity_record =
  er_archetype :: int
  er_column :: int

text \<open>The subsystem's fields; \<open>ecs_comp_base\<close> and \<open>ecs_tag_base\<close> are the
  static structs \<open>FECSCompBase::StaticStruct()\<close> and
  \<open>FECSTagBase::StaticStruct()\<close> the lookups test derivation against.\<close>

record 'v ecs_state =
  entity_records :: "entity_record sparse_array"
  registered_components :: "'v type_desc list"
  registered_tags :: "'v type_desc list"
  registered_archetypes :: "'v archetype list"
  ecs_comp_base :: "'v script_struct"
  ecs_tag_base :: "'v script_struct"

text \<open>\<open>ENTITY_ALLOC_CHUNK_SIZE\<close>.\<close>

definition entity_alloc_chunk_size :: int where
  "entity_alloc_chunk_size = 64"

text \<open>A loop whose body may fault, threading a value (the loops of
  \<open>InternalFindArchetypeID\<close> and \<open>InternalConstructCompsAtColumn\<close>).\<close>

fun fold_checked :: "('a \<Rightarrow> 'b \<Rightarrow> 'b checked) \<Rightarrow> 'a list \<Rightarrow> 'b \<Rightarrow> 'b checked" where
  "fold_checked f [] x = Inr x"
| "fold_checked f (y # ys) x = (case f y x of Inl e \<Rightarrow> Inl e | Inr x1 \<Rightarrow> fold_checked f ys x1)"

text \<open>\<open>Algo::IndexOf\<close> and \<open>TArray::IndexOfByPredicate\<close>.\<close>

definition index_of :: "'a list \<Rightarrow> 'a \<Rightarrow> int" where
  "index_of xs x = (case find (\<lambda>i. xs ! i = x) [0..<length xs] of None \<Rightarrow> INDEX_NONE | Some i \<Rightarrow> int i)"

definition index_of_by_predicate :: "('a \<Rightarrow> bool) \<Rightarrow> 'a list \<Rightarrow> int" where
  "index_of_by_predicate p xs = (case find (\<lambda>i. p (xs ! i)) [0..<length xs] of None \<Rightarrow> INDEX_NONE | Some i \<Rightarrow> int i)"

section \<open>Type ids\<close>

text \<open>\<open>GetCompTypeID<T>\<close> and \<open>GetTagTypeID<T>\<close>.\<close>

definition get_comp_type_id :: "'v ecs_state \<Rightarrow> 'v script_struct \<Rightarrow> int checked" where
  "get_comp_type_id s t = find_comp_type_id (ecs_comp_base s) (registered_components s) t"

definition get_tag_type_id :: "'v ecs_state \<Rightarrow> 'v script_struct \<Rightarrow> int checked" where
  "get_tag_type_id s t = find_tag_type_id (ecs_tag_base s) (registered_tags s) t"

text \<open>\<open>GetNumComps() + GetNumTags()\<close>: the bit count of every signature.\<close>

definition num_comps_and_tags :: "'v ecs_state \<Rightarrow> nat" where
  "num_comps_and_tags s = length (registered_components s) + length (registered_tags s)"

section \<open>Finding or creating an archetype\<close>

text \<open>\<open>Bitmask[Index] = true\<close> on a \<open>TBitArray\<close> of \<open>n\<close> bits (a checked
  index).  The bit array is kept as the 64-bit words of the archetype masks: on a
  little-endian machine its bytes are the same.\<close>

definition tbitarray_set :: "nat \<Rightarrow> int \<Rightarrow> bitelem list \<Rightarrow> bitelem list checked" where
  "tbitarray_set n i ws = (if 0 \<le> i \<and> nat i < n then Inr (bm_set True (nat i) ws) else Inl OutOfBounds)"

text \<open>The static signature mask: component ids, then tag ids shifted by the
  number of components.\<close>

definition signature_mask :: "'v ecs_state \<Rightarrow> int list \<Rightarrow> int list \<Rightarrow> bitelem list checked" where
  "signature_mask s cids tids =
     fold_checked (tbitarray_set (num_comps_and_tags s))
       (cids @ map (\<lambda>t. t + int (length (registered_components s))) tids)
       (bm_zeroed (num_comps_and_tags s))"

text \<open>The predicate of the archetype search: \<open>Memcmp\<close> of the first
  \<open>DivideAndRoundUp(Archetype.NumRows, 8)\<close> bytes.\<close>

definition archetype_matches :: "bitelem list \<Rightarrow> 'v archetype \<Rightarrow> bool" where
  "archetype_matches sig a \<longleftrightarrow> memcmp_eq sig (comp_mask a) (div_round_up (num_rows a) 8)"

text \<open>\<open>ArchetypeIDs.EmplaceAt(Algo::LowerBoundBy(ArchetypeIDs, NewID,
  &FArchetypeCompRecord::ID), NewID, RowIndex)\<close>.\<close>

definition add_archetype_ref :: "int \<Rightarrow> int \<Rightarrow> (int \<times> int) list \<Rightarrow> (int \<times> int) list" where
  "add_archetype_ref new_id row refs =
     (let i = lower_bound_by fst (<) refs new_id in take i refs @ [(new_id, row)] @ drop i refs)"

text \<open>One iteration of the two reference loops: \<open>RegisteredComponents[ID]\<close>
  (a checked index) gets the new archetype with the position of its type among
  the sorted types.\<close>

definition register_ref :: "int \<Rightarrow> 'v script_struct list \<Rightarrow> int \<Rightarrow> 'v type_desc list \<Rightarrow> 'v type_desc list checked" where
  "register_ref new_id types i descs =
     (if 0 \<le> i \<and> nat i < length descs then
        let d = descs ! nat i
        in Inr (descs[nat i := d\<lparr>td_refs := add_archetype_ref new_id (index_of types (td_type d)) (td_refs d)\<rparr>])
      else Inl OutOfBounds)"

text \<open>\<open>InternalFindArchetypeID\<close>: search the archetypes linearly for a mask
  that compares equal; otherwise create the archetype with the component types
  sorted by (size, unique id), append it, and record it in the descriptions of
  its component and tag types.\<close>

definition internal_find_archetype_id ::
  "'v ecs_state \<Rightarrow> 'v script_struct list \<Rightarrow> 'v script_struct list \<Rightarrow> ('v ecs_state \<times> int) checked" where
  "internal_find_archetype_id s comps tags =
     (case map_checked (get_comp_type_id s) comps of
        Inl e \<Rightarrow> Inl e
      | Inr cids \<Rightarrow>
     (case map_checked (get_tag_type_id s) tags of
        Inl e \<Rightarrow> Inl e
      | Inr tids \<Rightarrow>
     (case signature_mask s cids tids of
        Inl e \<Rightarrow> Inl e
      | Inr sig \<Rightarrow>
        let idx = index_of_by_predicate (archetype_matches sig) (registered_archetypes s) in
        if idx \<noteq> INDEX_NONE then Inr (s, idx)
        else
          let sorted_comps = sort_key size_uid_key comps;
              new_id = int (length (registered_archetypes s));
              s1 = s\<lparr>registered_archetypes := registered_archetypes s @
                       [arch_new sig (num_comps_and_tags s) sorted_comps]\<rparr>
          in (case fold_checked (register_ref new_id sorted_comps) cids (registered_components s1) of
                Inl e \<Rightarrow> Inl e
              | Inr cds \<Rightarrow>
                (case fold_checked (register_ref new_id (sort_key ss_uid tags)) tids (registered_tags s1) of
                   Inl e \<Rightarrow> Inl e
                 | Inr tds \<Rightarrow> Inr (s1\<lparr>registered_components := cds, registered_tags := tds\<rparr>, new_id))))))"

section \<open>Spawning and destroying entities\<close>

definition valid_archetype_id :: "'v ecs_state \<Rightarrow> int \<Rightarrow> bool" where
  "valid_archetype_id s i \<longleftrightarrow> 0 \<le> i \<and> nat i < length (registered_archetypes s)"

text \<open>\<open>InternalSpawnEntity\<close>: the archetype, a defaulted column at the first
  hole (allocating a chunk of 64 when full), and a record at the lowest free
  entity index.\<close>

definition spawn_entity ::
  "'v ecs_state \<Rightarrow> 'v script_struct list \<Rightarrow> 'v script_struct list \<Rightarrow> ('v ecs_state \<times> int) checked" where
  "spawn_entity s comps tags =
     (case internal_find_archetype_id s comps tags of
        Inl e \<Rightarrow> Inl e
      | Inr (s1, aid) \<Rightarrow>
        if \<not> valid_archetype_id s1 aid then Inl InvalidArchetype
        else
          (case add_at_first_uninitialized None entity_alloc_chunk_size (registered_archetypes s1 ! nat aid) of
             Inl e \<Rightarrow> Inl e
           | Inr (a1, col) \<Rightarrow>
               (case emplace_at_lowest_free_index \<lparr>er_archetype = aid, er_column = col\<rparr> (entity_records s1) of
                  (eid, recs) \<Rightarrow>
                    Inr (s1\<lparr>registered_archetypes := (registered_archetypes s1)[nat aid := a1],
                            entity_records := recs\<rparr>, int eid))))"

text \<open>Placement \<open>new (Archetype[RowIndex][ColumnIndex]) T{Param}\<close>: the row
  must have memory (\<open>check(Memory)\<close>) and the slot must lie in it; a live
  value there is overwritten without being destroyed.\<close>

definition row_place :: "int \<Rightarrow> 'v \<Rightarrow> 'v comp_row \<Rightarrow> 'v comp_row checked" where
  "row_place c v r =
     (case row_mem r of
        None \<Rightarrow> Inl OutOfBounds
      | Some cs \<Rightarrow> (if 0 \<le> c \<and> nat c < length cs then Inr (r\<lparr>row_mem := Some (cs[nat c := Live v])\<rparr>)
                    else Inl OutOfBounds))"

text \<open>\<open>InternalConstructCompsAtColumn\<close>: for each component type and its
  argument, the row is \<open>GetCompRow(GetCompTypeID<T>())\<close>.\<close>

definition construct_comp_at_column ::
  "'v ecs_state \<Rightarrow> int \<Rightarrow> 'v script_struct \<times> 'v \<Rightarrow> 'v archetype \<Rightarrow> 'v archetype checked" where
  "construct_comp_at_column s col tv a =
     (case tv of (t, v) \<Rightarrow>
       case get_comp_type_id s t of
         Inl e \<Rightarrow> Inl e
       | Inr cid \<Rightarrow>
         (case get_comp_row a cid of
            Inl e \<Rightarrow> Inl e
          | Inr row \<Rightarrow>
            if \<not> is_valid_row a row then Inl InvalidRow
            else (case row_place col v (rows a ! nat row) of
                    Inl e \<Rightarrow> Inl e
                  | Inr r \<Rightarrow> Inr (a\<lparr>rows := (rows a)[nat row := r]\<rparr>))))"

text \<open>\<open>InternalSpawnEntityWithEmplace\<close>: the column is
  \<open>FindFirstUninitializedRow()\<close>, or the first of a new chunk of 64 when that is
  \<open>INDEX_NONE\<close>; it must be valid and not live; the components are constructed
  from the arguments, the column marked live and the record emplaced.  The
  template requires one argument per component type; a mismatch is
  \<open>BadCopyCount\<close> here.\<close>

definition spawn_entity_emplace ::
  "'v ecs_state \<Rightarrow> 'v script_struct list \<Rightarrow> 'v script_struct list \<Rightarrow> 'v list \<Rightarrow> ('v ecs_state \<times> int) checked" where
  "spawn_entity_emplace s comps tags params =
     (if length params \<noteq> length comps then Inl BadCopyCount
      else case internal_find_archetype_id s comps tags of
        Inl e \<Rightarrow> Inl e
      | Inr (s1, aid) \<Rightarrow>
        if \<not> valid_archetype_id s1 aid then Inl InvalidArchetype
        else
          let a = registered_archetypes s1 ! nat aid in
          (case find_first_uninitialized_row a 0 of
             Inl e \<Rightarrow> Inl e
           | Inr c0 \<Rightarrow>
             (case (if c0 = INDEX_NONE then add_uninitialized entity_alloc_chunk_size a else Inr (a, c0)) of
                Inl e \<Rightarrow> Inl e
              | Inr (a1, col) \<Rightarrow>
                if \<not> is_valid_column a1 col then Inl InvalidColumn
                else (case is_column_initialized a1 col of
                   Inl e \<Rightarrow> Inl e
                 | Inr True \<Rightarrow> Inl ColumnAlreadyInitialized
                 | Inr False \<Rightarrow>
                   (case fold_checked (construct_comp_at_column s1 col) (zip comps params) a1 of
                      Inl e \<Rightarrow> Inl e
                    | Inr a2 \<Rightarrow>
                      (case set_column_initialized_flag True col a2 of
                         Inl e \<Rightarrow> Inl e
                       | Inr a3 \<Rightarrow>
                         (case emplace_at_lowest_free_index \<lparr>er_archetype = aid, er_column = col\<rparr> (entity_records s1) of
                            (eid, recs) \<Rightarrow>
                              Inr (s1\<lparr>registered_archetypes := (registered_archetypes s1)[nat aid := a3],
                                      entity_records := recs\<rparr>, int eid))))))))"

text \<open>\<open>IsValidEntity\<close> and \<open>DestroyEntity\<close>.\<close>

definition is_valid_entity :: "'v ecs_state \<Rightarrow> int \<Rightarrow> bool" where
  "is_valid_entity s eid \<longleftrightarrow> sparse_is_valid_index (entity_records s) eid"

definition destroy_entity :: "'v ecs_state \<Rightarrow> int \<Rightarrow> 'v ecs_state checked" where
  "destroy_entity s eid =
     (if \<not> is_valid_entity s eid then Inl InvalidEntity
      else
        let r = the (entity_records s ! nat eid) in
        if \<not> valid_archetype_id s (er_archetype r) then Inl InvalidArchetype
        else
          (case destruct_at (er_column r) (registered_archetypes s ! nat (er_archetype r)) of
             Inl e \<Rightarrow> Inl e
           | Inr (a1, _) \<Rightarrow>
             (case sparse_remove_at eid (entity_records s) of
                Inl e \<Rightarrow> Inl e
              | Inr recs \<Rightarrow>
                  Inr (s\<lparr>registered_archetypes := (registered_archetypes s)[nat (er_archetype r) := a1],
                         entity_records := recs\<rparr>))))"

section \<open>Lookups\<close>

text \<open>The raw read \<open>IncludedCompTagBitMask[Index / 64] & 1ull << Index % 64\<close>
  of \<open>EntityHasComp\<close>/\<open>EntityHasTag\<close>: outside the mask it is undefined.\<close>

definition mask_bit :: "'v archetype \<Rightarrow> int \<Rightarrow> bool checked" where
  "mask_bit a i =
     (if i < 0 \<or> length (comp_mask a) \<le> nat i div 64 then Inl OutOfBounds
      else Inr (bm_get (comp_mask a) (nat i)))"

text \<open>\<open>EntityHasComp\<close> / \<open>EntityHasTag\<close>: an invalid entity is \<open>false\<close>
  (\<open>ensure\<close> does not stop the program); a tag's bit is its id plus the number
  of components.\<close>

definition entity_has_bit :: "'v ecs_state \<Rightarrow> int \<Rightarrow> int \<Rightarrow> bool checked" where
  "entity_has_bit s eid i =
     (if \<not> is_valid_entity s eid then Inr False
      else
        let r = the (entity_records s ! nat eid) in
        if \<not> valid_archetype_id s (er_archetype r) then Inl InvalidArchetype
        else mask_bit (registered_archetypes s ! nat (er_archetype r)) i)"

definition entity_has_comp :: "'v ecs_state \<Rightarrow> int \<Rightarrow> int \<Rightarrow> bool checked" where
  "entity_has_comp s eid cid = entity_has_bit s eid cid"

definition entity_has_tag :: "'v ecs_state \<Rightarrow> int \<Rightarrow> int \<Rightarrow> bool checked" where
  "entity_has_tag s eid tid = entity_has_bit s eid (tid + int (length (registered_components s)))"

text \<open>\<open>GetEntityComp<T>\<close>: \<open>nullptr\<close> (\<open>None\<close>) when the entity's archetype
  lacks \<open>T\<close>; otherwise the slot of its column in the row \<open>GetCompRow\<close> derives,
  whose type must be \<open>T\<close>.\<close>

definition get_entity_comp :: "'v ecs_state \<Rightarrow> int \<Rightarrow> 'v script_struct \<Rightarrow> 'v cell option checked" where
  "get_entity_comp s eid t =
     (if \<not> is_valid_entity s eid then Inl InvalidEntity
      else case get_comp_type_id s t of
        Inl e \<Rightarrow> Inl e
      | Inr cid \<Rightarrow>
        (case entity_has_comp s eid cid of
           Inl e \<Rightarrow> Inl e
         | Inr False \<Rightarrow> Inr None
         | Inr True \<Rightarrow>
           let r = the (entity_records s ! nat eid);
               a = registered_archetypes s ! nat (er_archetype r) in
           (case get_comp_row a cid of
              Inl e \<Rightarrow> Inl e
            | Inr row \<Rightarrow>
              if \<not> is_valid_row a row then Inl InvalidRow
              else if row_type (rows a ! nat row) \<noteq> t then Inl TypeMismatch
              else Inr (Some (row_cell (rows a ! nat row) (nat (er_column r)))))))"

text \<open>\<open>FindArchetypeID(CompIDs, TagIDs)\<close> of \<open>ECSSubsystem.cpp\<close>: after its
  checks, and (without tags) after filling a byte mask of the component ids that
  it never reads (writing outside it is undefined), it returns \<open>INDEX_NONE\<close>
  on every path.\<close>

definition find_archetype_id :: "'v ecs_state \<Rightarrow> int list \<Rightarrow> int list \<Rightarrow> int checked" where
  "find_archetype_id s cids tids =
     (if registered_components s = [] then Inl NoTypesRegistered
      else if registered_tags s = [] then Inl NoTypesRegistered
      else if cids = [] then Inl BadCount
      else if tids = [] \<and>
              list_ex (\<lambda>i. i < 0 \<or> div_round_up (length (registered_components s)) 8 \<le> nat i div 8) cids
      then Inl OutOfBounds
      else Inr INDEX_NONE)"

section \<open>Initialization\<close>

text \<open>The registration step of \<open>Initialize\<close> on a freshly constructed
  subsystem (no entities, no archetypes): \<open>RegisterComponentsAndTags\<close> over
  every script struct of the program.\<close>

definition ecs_registered :: "'v script_struct \<Rightarrow> 'v script_struct \<Rightarrow> 'v script_struct list \<Rightarrow> 'v ecs_state" where
  "ecs_registered cb tb ss =
     (case register_components_and_tags cb tb ss [] [] of (cs, ts) \<Rightarrow>
        \<lparr>entity_records = [], registered_components = cs, registered_tags = ts,
         registered_archetypes = [], ecs_comp_base = cb, ecs_tag_base = tb\<rparr>)"

section \<open>Fixtures\<close>

text \<open>The subsystem right after \<open>Initialize\<close> registered the type universe of
  \<open>TypeRegistry\<close>: components of 4 and 16 bytes, one tag, no archetypes.\<close>

definition ex_ecs0 :: "nat ecs_state" where
  "ex_ecs0 = ecs_registered ex_comp_base ex_tag_base ex_structs"

text \<open>The subsystem after the first two spawns with arguments of \<open>Initialize\<close>
  (both into the archetype of the 16- and 4-byte components).\<close>

definition ex_emplaced2 :: "nat ecs_state" where
  "ex_emplaced2 =
     fst (projr (spawn_entity_emplace (fst (projr (spawn_entity_emplace ex_ecs0 [ex_c16, ex_c4] [] [50, 60])))
                   [ex_c4, ex_c16] [] [61, 51]))"

section \<open>Lemmas\<close>

lemma fold_checked_Inr_total:
  "(\<And>y x. y \<in> set ys \<Longrightarrow> f y x = Inr (g y x)) \<Longrightarrow> fold_checked f ys x = Inr (fold g ys x)"
  by (induction ys arbitrary: x) auto

lemma fold_checked_tbitarray:
  "\<forall>i \<in> set is. 0 \<le> i \<and> nat i < n \<Longrightarrow>
   fold_checked (tbitarray_set n) is ws = Inr (fold (bm_set True) (map nat is) ws)"
  by (induction "is" arbitrary: ws) (auto simp: tbitarray_set_def)

text \<open>Recording an archetype in the descriptions changes no type.\<close>

lemma map_td_type_update:
  "k < length ds \<Longrightarrow> map td_type (ds[k := (ds ! k)\<lparr>td_refs := x\<rparr>]) = map td_type ds"
  by (rule nth_equalityI) (auto simp: nth_list_update)

lemma fold_register_ref_types:
  "fold_checked (register_ref n ts) is ds = Inr ds' \<Longrightarrow> map td_type ds' = map td_type ds"
proof (induction "is" arbitrary: ds)
  case Nil
  then show ?case by simp
next
  case (Cons i "is")
  then show ?case
    by (auto simp: register_ref_def Let_def map_td_type_update split: if_splits)
qed

text \<open>The binary search reads the list only through its projection.\<close>

lemma lower_bound_loop_map:
  "st + sz \<le> length xs \<Longrightarrow> lower_bound_loop proj lt xs v st sz = lower_bound_loop id lt (map proj xs) v st sz"
proof (induction proj lt xs v st sz rule: lower_bound_loop.induct)
  case (1 proj lt xs v st sz)
  show ?case
  proof (cases "0 < sz")
    case False
    then show ?thesis by (simp add: lower_bound_loop_0)
  next
    case True
    define half where "half = sz div 2"
    define left where "left = sz mod 2"
    define check where "check = st + half"
    have ck: "check < length xs" and hs: "half \<le> sz" and sz: "sz = half + half + left"
      using "1.prems" True by (simp_all add: check_def half_def left_def) (metis div_mult_mod_eq mult_2_right)
    have b: "(if lt (proj (xs ! check)) v then check + left else st) + half \<le> length xs"
      using "1.prems" sz by (simp add: check_def)
    have e1: "lower_bound_loop proj lt xs v st sz =
        lower_bound_loop proj lt xs v (if lt (proj (xs ! check)) v then check + left else st) half"
      using True by (simp add: lower_bound_loop.simps [of proj lt xs v st sz] Let_def
                                half_def left_def check_def)
    have e2: "lower_bound_loop id lt (map proj xs) v st sz =
        lower_bound_loop id lt (map proj xs) v (if lt (proj (xs ! check)) v then check + left else st) half"
      using True ck by (simp add: lower_bound_loop.simps [of id lt "map proj xs" v st sz] Let_def
                                   half_def left_def check_def)
    show ?thesis
      unfolding e1 e2 by (rule "1.IH" [OF True left_def half_def check_def b])
  qed
qed

lemma binary_search_by_map:
  "binary_search_by proj lt xs v = binary_search_by id lt (map proj xs) v"
proof -
  have "lower_bound_by proj lt xs v = lower_bound_by id lt (map proj xs) v"
    unfolding lower_bound_by_def
    by (subst lower_bound_loop_map [where xs = xs and st = 0 and sz = "length xs"]) simp_all
  then show ?thesis by (auto simp: binary_search_by_def Let_def)
qed

lemma find_comp_type_id_types:
  assumes "map td_type ds = map td_type ds'"
  shows "find_comp_type_id cb ds t = find_comp_type_id cb ds' t"
proof -
  have "ds = [] \<longleftrightarrow> ds' = []" using assms by (metis Nil_is_map_conv)
  with assms show ?thesis
    unfolding find_comp_type_id_def binary_search_by_map [where xs = ds] binary_search_by_map [where xs = "ds'"]
    by (simp only:)
qed

lemma find_tag_type_id_types:
  assumes "map td_type ds = map td_type ds'"
  shows "find_tag_type_id cb ds t = find_tag_type_id cb ds' t"
proof -
  have "ds = [] \<longleftrightarrow> ds' = []" using assms by (metis Nil_is_map_conv)
  with assms show ?thesis
    unfolding find_tag_type_id_def binary_search_by_map [where xs = ds] binary_search_by_map [where xs = "ds'"]
    by (simp only:)
qed

lemma fold_checked_tbitarray_length:
  "fold_checked (tbitarray_set n) is ws = Inr ws' \<Longrightarrow> length ws' = length ws"
  by (induction "is" arbitrary: ws) (auto simp: tbitarray_set_def length_bm_set split: if_splits)

lemma signature_mask_length:
  "signature_mask s cids tids = Inr sig \<Longrightarrow> length sig = bit_words (num_comps_and_tags s)"
  unfolding signature_mask_def by (drule fold_checked_tbitarray_length) (simp add: length_bm_zeroed)

lemma comp_mask_arch_new:
  "length sig = bit_words n \<Longrightarrow> comp_mask (arch_new sig n cs) = sig"
  by (simp add: arch_new_def)

lemma index_of_by_predicate_snoc:
  assumes "index_of_by_predicate p xs = INDEX_NONE" and "p x"
  shows "index_of_by_predicate p (xs @ [x]) = int (length xs)"
proof -
  have none: "\<forall>i < length xs. \<not> p (xs ! i)"
    using assms(1) by (auto simp: index_of_by_predicate_def find_None_iff split: option.splits)
  have "find (\<lambda>i. p ((xs @ [x]) ! i)) [0..<length (xs @ [x])] = Some (length xs)"
    using none assms(2) by (subst find_Some_iff) (auto simp: nth_append intro!: exI [of _ "length xs"])
  then show ?thesis by (simp add: index_of_by_predicate_def)
qed

lemma index_of_by_predicate_Some:
  "index_of_by_predicate p xs \<noteq> INDEX_NONE \<Longrightarrow>
   0 \<le> index_of_by_predicate p xs \<and> nat (index_of_by_predicate p xs) < length xs \<and>
   p (xs ! nat (index_of_by_predicate p xs))"
  by (auto simp: index_of_by_predicate_def find_Some_iff split: option.splits)

text \<open>The two outcomes of \<open>InternalFindArchetypeID\<close>: an archetype found,
  the state unchanged; or a new one appended and recorded.\<close>

lemma internal_find_archetype_id_cases:
  assumes "internal_find_archetype_id s comps tags = Inr (s', aid)"
  obtains cids tids sig where
    "map_checked (get_comp_type_id s) comps = Inr cids"
    "map_checked (get_tag_type_id s) tags = Inr tids"
    "signature_mask s cids tids = Inr sig"
    "index_of_by_predicate (archetype_matches sig) (registered_archetypes s) = aid"
    "aid \<noteq> INDEX_NONE" "s' = s"
  | cids tids sig cds tds where
    "map_checked (get_comp_type_id s) comps = Inr cids"
    "map_checked (get_tag_type_id s) tags = Inr tids"
    "signature_mask s cids tids = Inr sig"
    "index_of_by_predicate (archetype_matches sig) (registered_archetypes s) = INDEX_NONE"
    "aid = int (length (registered_archetypes s))"
    "fold_checked (register_ref aid (sort_key size_uid_key comps)) cids (registered_components s) = Inr cds"
    "fold_checked (register_ref aid (sort_key ss_uid tags)) tids (registered_tags s) = Inr tds"
    "s' = s\<lparr>registered_archetypes := registered_archetypes s @
              [arch_new sig (num_comps_and_tags s) (sort_key size_uid_key comps)],
            registered_components := cds, registered_tags := tds\<rparr>"
proof -
  obtain cids where c: "map_checked (get_comp_type_id s) comps = Inr cids"
    using assms by (cases "map_checked (get_comp_type_id s) comps") (simp_all add: internal_find_archetype_id_def)
  obtain tids where t: "map_checked (get_tag_type_id s) tags = Inr tids"
    using assms c by (cases "map_checked (get_tag_type_id s) tags") (simp_all add: internal_find_archetype_id_def)
  obtain sig where m: "signature_mask s cids tids = Inr sig"
    using assms c t by (cases "signature_mask s cids tids") (simp_all add: internal_find_archetype_id_def)
  let ?idx = "index_of_by_predicate (archetype_matches sig) (registered_archetypes s)"
  let ?new = "int (length (registered_archetypes s))"
  have eq: "internal_find_archetype_id s comps tags =
      (if ?idx \<noteq> INDEX_NONE then Inr (s, ?idx)
       else case fold_checked (register_ref ?new (sort_key size_uid_key comps)) cids (registered_components s) of
              Inl e \<Rightarrow> Inl e
            | Inr cds \<Rightarrow>
              (case fold_checked (register_ref ?new (sort_key ss_uid tags)) tids (registered_tags s) of
                 Inl e \<Rightarrow> Inl e
               | Inr tds \<Rightarrow> Inr (s\<lparr>registered_archetypes := registered_archetypes s @
                       [arch_new sig (num_comps_and_tags s) (sort_key size_uid_key comps)],
                     registered_components := cds, registered_tags := tds\<rparr>, ?new)))"
    using c t m by (simp add: internal_find_archetype_id_def Let_def cong: sum.case_cong)
  show ?thesis
  proof (cases "?idx \<noteq> INDEX_NONE")
    case True
    have "Inr (s, ?idx) = (Inr (s', aid) :: ('a ecs_state \<times> int) checked)"
      using assms unfolding eq if_P [OF True] .
    then have "s' = s" "aid = ?idx" by auto
    with True show ?thesis by (intro that(1) [OF c t m]) simp_all
  next
    case False
    obtain cds where cd: "fold_checked (register_ref ?new (sort_key size_uid_key comps)) cids (registered_components s) = Inr cds"
      using assms eq False by (cases "fold_checked (register_ref ?new (sort_key size_uid_key comps)) cids (registered_components s)") simp_all
    obtain tds where td: "fold_checked (register_ref ?new (sort_key ss_uid tags)) tids (registered_tags s) = Inr tds"
      using assms eq False cd by (cases "fold_checked (register_ref ?new (sort_key ss_uid tags)) tids (registered_tags s)") simp_all
    have "aid = ?new" "s' = s\<lparr>registered_archetypes := registered_archetypes s @
                       [arch_new sig (num_comps_and_tags s) (sort_key size_uid_key comps)],
                     registered_components := cds, registered_tags := tds\<rparr>"
      using assms eq False cd td by simp_all
    with False cd td show ?thesis by (intro that(2) [OF c t m]) simp_all
  qed
qed

text \<open>What \<open>InternalFindArchetypeID\<close> leaves alone: the types and their ids,
  the entity index, the existing archetypes.\<close>

lemma internal_find_archetype_id_keeps:
  assumes "internal_find_archetype_id s comps tags = Inr (s', aid)"
  shows "map td_type (registered_components s') = map td_type (registered_components s) \<and>
    map td_type (registered_tags s') = map td_type (registered_tags s) \<and>
    ecs_comp_base s' = ecs_comp_base s \<and> ecs_tag_base s' = ecs_tag_base s \<and>
    entity_records s' = entity_records s \<and>
    take (length (registered_archetypes s)) (registered_archetypes s') = registered_archetypes s \<and>
    valid_archetype_id s' aid"
  using assms
proof (cases rule: internal_find_archetype_id_cases)
  case (1 cids tids sig)
  then show ?thesis
    using index_of_by_predicate_Some [of "archetype_matches sig" "registered_archetypes s"]
    by (auto simp: valid_archetype_id_def)
next
  case (2 cids tids sig cds tds)
  then show ?thesis
    by (auto simp: valid_archetype_id_def dest: fold_register_ref_types)
qed

lemma lookups_of_same_types:
  assumes "map td_type (registered_components s') = map td_type (registered_components s)"
    and "map td_type (registered_tags s') = map td_type (registered_tags s)"
    and "ecs_comp_base s' = ecs_comp_base s" "ecs_tag_base s' = ecs_tag_base s"
  shows "get_comp_type_id s' = get_comp_type_id s" "get_tag_type_id s' = get_tag_type_id s"
    and "num_comps_and_tags s' = num_comps_and_tags s"
    and "signature_mask s' = signature_mask s"
proof -
  show c: "get_comp_type_id s' = get_comp_type_id s" "get_tag_type_id s' = get_tag_type_id s"
    using assms find_comp_type_id_types find_tag_type_id_types
    by (auto simp: get_comp_type_id_def get_tag_type_id_def fun_eq_iff)
  have "length (registered_components s') = length (registered_components s)"
    "length (registered_tags s') = length (registered_tags s)"
    using assms(1,2) by (metis length_map)+
  then show "num_comps_and_tags s' = num_comps_and_tags s" "signature_mask s' = signature_mask s"
    by (simp_all add: num_comps_and_tags_def signature_mask_def fun_eq_iff)
qed

lemma internal_find_archetype_id_found:
  "map_checked (get_comp_type_id s) comps = Inr cids \<Longrightarrow> map_checked (get_tag_type_id s) tags = Inr tids \<Longrightarrow>
   signature_mask s cids tids = Inr sig \<Longrightarrow>
   index_of_by_predicate (archetype_matches sig) (registered_archetypes s) = i \<Longrightarrow> i \<noteq> INDEX_NONE \<Longrightarrow>
   internal_find_archetype_id s comps tags = Inr (s, i)"
  by (simp add: internal_find_archetype_id_def)

section \<open>Properties\<close>

text \<open>GetArchetypeID is stable: once InternalFindArchetypeID has
  returned an archetype for a signature (finding it or creating it), asking again
  for the same signature returns the same archetype and changes nothing.\<close>

theorem internal_find_archetype_id_stable:
  assumes r: "internal_find_archetype_id s comps tags = Inr (s', aid)"
  shows "internal_find_archetype_id s' comps tags = Inr (s', aid)"
  using r
proof (cases rule: internal_find_archetype_id_cases)
  case (1 cids tids sig)
  with r show ?thesis by simp
next
  case (2 cids tids sig cds tds)
  note k = internal_find_archetype_id_keeps [OF r]
  note l = lookups_of_same_types [of s' s]
  have same: "get_comp_type_id s' = get_comp_type_id s" "get_tag_type_id s' = get_tag_type_id s"
    "num_comps_and_tags s' = num_comps_and_tags s" "signature_mask s' = signature_mask s"
    using l k by simp_all
  let ?new = "arch_new sig (num_comps_and_tags s) (sort_key size_uid_key comps)"
  have "comp_mask ?new = sig"
    using signature_mask_length [OF 2(3)] by (rule comp_mask_arch_new)
  then have "archetype_matches sig ?new" by (simp add: archetype_matches_def memcmp_eq_refl)
  then have "index_of_by_predicate (archetype_matches sig) (registered_archetypes s') = aid"
    using index_of_by_predicate_snoc [OF 2(4)] 2 by simp
  then show ?thesis
    using 2 same by (intro internal_find_archetype_id_found [where cids = cids and tids = tids and sig = sig]) simp_all
qed

theorem internal_find_archetype_id_stable_witness:
  "internal_find_archetype_id (fst (projr (internal_find_archetype_id ex_ecs0 [ex_c16, ex_c4] []))) [ex_c16, ex_c4] [] =
   Inr (fst (projr (internal_find_archetype_id ex_ecs0 [ex_c16, ex_c4] [])), 0)"
proof -
  have e: "internal_find_archetype_id ex_ecs0 [ex_c16, ex_c4] [] =
      Inr (fst (projr (internal_find_archetype_id ex_ecs0 [ex_c16, ex_c4] [])), 0)"
    by code_simp
  show ?thesis by (rule internal_find_archetype_id_stable [OF e])
qed

text \<open>The scenario of \<open>Initialize\<close>: spawning with arguments the
  components (16 bytes, 4 bytes) and then (4 bytes, 16 bytes) gives entities 0 and
  1 in one archetype whose rows are ordered by size, and each entity reads back
  the value it was given for each component.\<close>

theorem spawn_emplace_scenario:
  "(case spawn_entity_emplace ex_ecs0 [ex_c16, ex_c4] [] [50, 60] of
      Inl e \<Rightarrow> False
    | Inr (s1, e1) \<Rightarrow>
      (case spawn_entity_emplace s1 [ex_c4, ex_c16] [] [61, 51] of
         Inl e \<Rightarrow> False
       | Inr (s2, e2) \<Rightarrow> e1 = 0 \<and> e2 = 1 \<and> length (registered_archetypes s2) = 1 \<and>
           map row_type (rows (hd (registered_archetypes s2))) = [ex_c4, ex_c16] \<and>
           get_entity_comp s2 0 ex_c16 = Inr (Some (Live 50)) \<and>
           get_entity_comp s2 0 ex_c4 = Inr (Some (Live 60)) \<and>
           get_entity_comp s2 1 ex_c16 = Inr (Some (Live 51)) \<and>
           get_entity_comp s2 1 ex_c4 = Inr (Some (Live 61))))"
  by code_simp

text \<open>Claim C33: InternalSpawnEntityWithEmplace faults whenever the archetype of
  the signature is well formed and its columns 0 and 1 are live: it takes
  FindFirstUninitializedRow(0), which is then the live column 1, as the free
  column, and the check that the column is not initialized fails.\<close>

theorem emplace_spawn_faults_on_live_pair:
  assumes f: "internal_find_archetype_id s comps tags = Inr (s1, aid)" and v: "valid_archetype_id s1 aid"
    and inv: "arch_inv (registered_archetypes s1 ! nat aid)"
    and nc: "1 < num_columns (registered_archetypes s1 ! nat aid)"
    and l0: "live_bit (registered_archetypes s1 ! nat aid) 0"
    and l1: "live_bit (registered_archetypes s1 ! nat aid) 1"
    and len: "length params = length comps"
  shows "spawn_entity_emplace s comps tags params = Inl ColumnAlreadyInitialized"
proof -
  let ?a = "registered_archetypes s1 ! nat aid"
  have ff: "find_first_uninitialized_row ?a 0 = Inr 1"
    using first_uninitialized_row_live_zero [OF inv _ l0] nc by simp
  obtain ws where ws: "init_mask ?a = Some ws" using inv nc by (cases "init_mask ?a") (auto simp: arch_inv_def)
  have "is_column_initialized ?a 1 = Inr True"
    using ws l1 nc by (simp add: is_column_initialized_def is_valid_column_def live_bit_def)
  then show ?thesis
    using f v ff nc len by (simp add: spawn_entity_emplace_def is_valid_column_def)
qed

theorem emplace_spawn_faults_on_live_pair_witness:
  "spawn_entity_emplace ex_emplaced2 [ex_c4, ex_c16] [] [62, 52] = Inl ColumnAlreadyInitialized"
proof -
  let ?r = "projr (internal_find_archetype_id ex_emplaced2 [ex_c4, ex_c16] [])"
  have f: "internal_find_archetype_id ex_emplaced2 [ex_c4, ex_c16] [] = Inr (fst ?r, snd ?r)"
    by code_simp
  have h: "valid_archetype_id (fst ?r) (snd ?r)"
      "1 < num_columns (registered_archetypes (fst ?r) ! nat (snd ?r))"
      "live_bit (registered_archetypes (fst ?r) ! nat (snd ?r)) 0"
      "live_bit (registered_archetypes (fst ?r) ! nat (snd ?r)) 1"
    by code_simp+
  have q: "(\<forall>c < n. P c) = list_all P [0..<n]" for n and P :: "nat \<Rightarrow> bool"
    by (auto simp: list_all_iff)
  have inv: "arch_inv (registered_archetypes (fst ?r) ! nat (snd ?r))"
    unfolding arch_inv_def q by code_simp
  show ?thesis using emplace_spawn_faults_on_live_pair [OF f h(1) inv h(2-4)] by simp
qed

text \<open>FindArchetypeID never finds an archetype: whenever its checks
  pass it returns INDEX_NONE.\<close>

theorem find_archetype_id_none:
  "find_archetype_id s cids tids = Inr i \<Longrightarrow> i = INDEX_NONE"
  by (simp add: find_archetype_id_def split: if_splits)

theorem find_archetype_id_none_witness:
  "find_archetype_id (fst (projr (spawn_entity ex_ecs0 [ex_c4] [ex_t]))) [0] [0] = Inr INDEX_NONE"
proof -
  have "find_archetype_id (fst (projr (spawn_entity ex_ecs0 [ex_c4] [ex_t]))) [0] [0] =
      Inr (projr (find_archetype_id (fst (projr (spawn_entity ex_ecs0 [ex_c4] [ex_t]))) [0] [0]))"
    by code_simp
  with find_archetype_id_none [OF this] show ?thesis by simp
qed

end
