(* ===== verification/SubsystemInvariant.thy ===== *)
theory SubsystemInvariant
  imports ECSSubsystem
begin

text \<open>
  The well-formedness of \<open>UECSSubsystem\<close> and why \<open>GetCompRow\<close> addresses the
  right row.  \<open>arch_rows_match\<close> says an archetype's rows hold the registered
  component types whose signature bits are set, in id order; with the registry
  sorted by (size, unique id) that is the order \<open>InternalFindArchetypeID\<close>
  sorts a new archetype's types into, so the population count of
  \<open>GetCompRow\<close> lands on the row of the component.  \<open>ecs_inv\<close> adds the
  archetype invariant and that every entity record names a live column, no two
  the same.
\<close>

section \<open>The invariant\<close>

definition arch_rows_match :: "'v script_struct list \<Rightarrow> 'v archetype \<Rightarrow> bool" where
  "arch_rows_match ts a \<longleftrightarrow>
     bit_words (length ts) \<le> length (comp_mask a) \<and>
     map row_type (rows a) = map (\<lambda>i. ts ! i) (filter (bm_get (comp_mask a)) [0..<length ts])"

definition record_ok :: "'v ecs_state \<Rightarrow> entity_record \<Rightarrow> bool" where
  "record_ok s r \<longleftrightarrow>
     valid_archetype_id s (er_archetype r) \<and> 0 \<le> er_column r \<and>
     nat (er_column r) < num_columns (registered_archetypes s ! nat (er_archetype r)) \<and>
     live_bit (registered_archetypes s ! nat (er_archetype r)) (nat (er_column r))"

definition records_ok :: "'v ecs_state \<Rightarrow> bool" where
  "records_ok s \<longleftrightarrow>
     (\<forall>e < length (entity_records s). case entity_records s ! e of None \<Rightarrow> True | Some r \<Rightarrow> record_ok s r) \<and>
     (\<forall>e1 < length (entity_records s). \<forall>e2 < length (entity_records s).
        e1 \<noteq> e2 \<longrightarrow> entity_records s ! e1 \<noteq> None \<longrightarrow> entity_records s ! e1 \<noteq> entity_records s ! e2)"

definition arch_ok :: "'v ecs_state \<Rightarrow> 'v archetype \<Rightarrow> bool" where
  "arch_ok s a \<longleftrightarrow>
     arch_inv a \<and> 0 < num_rows a \<and> arch_rows_match (map td_type (registered_components s)) a \<and>
     length (comp_mask a) = bit_words (num_comps_and_tags s)"

definition ecs_inv :: "'v ecs_state \<Rightarrow> bool" where
  "ecs_inv s \<longleftrightarrow>
     sorted_wrt (\<lambda>x y. size_uid_key x < size_uid_key y) (map td_type (registered_components s)) \<and>
     list_all (\<lambda>t. is_child_of t (ecs_comp_base s)) (map td_type (registered_components s)) \<and>
     sorted_wrt (\<lambda>x y. ss_uid x < ss_uid y) (map td_type (registered_tags s)) \<and>
     list_all (\<lambda>t. is_child_of t (ecs_tag_base s)) (map td_type (registered_tags s)) \<and>
     list_all (arch_ok s) (registered_archetypes s) \<and>
     records_ok s"

section \<open>Lemmas\<close>

text \<open>The position of a member of a filtered index range.\<close>

lemma filter_upt_nth_count:
  assumes "i < n" "P i"
  shows "length (filter P [0..<i]) < length (filter P [0..<n]) \<and>
         filter P [0..<n] ! length (filter P [0..<i]) = i"
proof -
  have "[0..<n] = [0..<i] @ i # [Suc i..<n]"
  proof -
    have "[0..<n] = [0..<i] @ [i..<n]" using upt_add_eq_append [of 0 i "n - i"] assms(1) by simp
    also have "[i..<n] = i # [Suc i..<n]" using assms(1) by (rule upt_conv_Cons)
    finally show ?thesis .
  qed
  then have "filter P [0..<n] = filter P [0..<i] @ i # filter P [Suc i..<n]"
    using assms(2) by simp
  then show ?thesis by (simp add: nth_append)
qed

text \<open>Row derivation: on an archetype whose rows match its signature, the row
  \<open>GetCompRow\<close> computes for a set component bit holds that component.\<close>

lemma get_comp_row_type:
  assumes inv: "arch_inv a" and m: "arch_rows_match ts a" and i: "i < length ts"
    and b: "bm_get (comp_mask a) i"
  shows "\<exists>k. get_comp_row a (int i) = Inr (int k) \<and> k < num_rows a \<and> row_type (rows a ! k) = ts ! i"
proof -
  let ?L = "filter (bm_get (comp_mask a)) [0..<length ts]"
  define k where "k = length (filter (bm_get (comp_mask a)) [0..<i])"
  note pos = filter_upt_nth_count [OF i, of "bm_get (comp_mask a)", folded k_def]
  have rt: "map row_type (rows a) = map (\<lambda>i. ts ! i) ?L" and w: "bit_words (length ts) \<le> length (comp_mask a)"
    using m by (simp_all add: arch_rows_match_def)
  have lr: "length (rows a) = length ?L" using arg_cong [OF rt, of length] by simp
  have nr: "num_rows a = length (rows a)" using inv by (simp add: arch_inv_def)
  have kr: "k < num_rows a" using pos lr nr b by simp
  have "row_type (rows a ! k) = map row_type (rows a) ! k" using kr nr by simp
  also have "\<dots> = ts ! i" using rt pos b kr nr lr by simp
  finally have ty: "row_type (rows a ! k) = ts ! i" .
  have wd: "i div 64 < length (comp_mask a)" using bit_words_less [OF i] w by simp
  have "get_comp_row a (int i) = Inr (int k)"
    using wd b kr by (simp add: get_comp_row_def count_set_below_eq k_def is_valid_row_def)
  with kr ty show ?thesis by blast
qed

text \<open>Two lists strictly sorted by the same key, with the same elements, are
  equal.\<close>

lemma sorted_key_unique:
  fixes f :: "'a \<Rightarrow> 'k::linorder"
  assumes xs: "sorted_wrt (\<lambda>x y. f x < f y) xs" and ys: "sorted_wrt (\<lambda>x y. f x < f y) ys"
    and set: "set xs = set ys"
  shows "xs = ys"
proof -
  have sx: "sorted (map f xs)" "distinct (map f xs)" and sy: "sorted (map f ys)" "distinct (map f ys)"
    using xs ys by (simp_all add: sorted_wrt_map [symmetric] strict_sorted_iff)
  have "map f xs = map f ys"
    using sx sy set by (intro sorted_distinct_set_unique) simp_all
  moreover have "inj_on f (set xs \<union> set ys)" using sx(2) set by (simp add: distinct_map)
  ultimately show ?thesis by (rule map_inj_on)
qed

lemma sorted_key_inj:
  fixes f :: "'a \<Rightarrow> 'k::linorder"
  shows "sorted_wrt (\<lambda>x y. f x < f y) xs \<Longrightarrow> inj_on f (set xs)"
  by (simp add: sorted_wrt_map [symmetric] strict_sorted_iff distinct_map)

text \<open>A registered component type is found at its index.\<close>

lemma find_comp_type_id_registered:
  assumes sorted: "sorted_wrt (\<lambda>x y. size_uid_key x < size_uid_key y) (map td_type R)"
    and t: "t \<in> set (map td_type R)" and ch: "is_child_of t cb"
  shows "\<exists>i < length R. find_comp_type_id cb R t = Inr (int i) \<and> td_type (R ! i) = t"
proof -
  obtain i where i: "i < length R" "td_type (R ! i) = t" using t by (auto simp: in_set_conv_nth)
  have s2: "sorted_wrt (\<lambda>x y. size_uid_key (td_type x) < size_uid_key (td_type y)) R"
    using sorted by (simp add: sorted_wrt_map)
  have d: "distinct (map (\<lambda>d. size_uid_key (td_type d)) R)"
    using sorted by (simp add: sorted_wrt_map [symmetric] strict_sorted_iff comp_def)
  have "binary_search_by td_type size_uid_less R t = int i"
    using binary_search_by_eq_key_index [of size_uid_less size_uid_key td_type R t, OF size_uid_less_key s2]
      key_index_distinct [OF d i(1)] i(2) by simp
  with i ch show ?thesis by (auto simp: find_comp_type_id_def)
qed

lemma find_tag_type_id_registered:
  assumes sorted: "sorted_wrt (\<lambda>x y. ss_uid x < ss_uid y) (map td_type R)"
    and t: "t \<in> set (map td_type R)" and ch: "is_child_of t tb"
  shows "\<exists>i < length R. find_tag_type_id tb R t = Inr (int i) \<and> td_type (R ! i) = t"
proof -
  obtain i where i: "i < length R" "td_type (R ! i) = t" using t by (auto simp: in_set_conv_nth)
  have s2: "sorted_wrt (\<lambda>x y. ss_uid (td_type x) < ss_uid (td_type y)) R"
    using sorted by (simp add: sorted_wrt_map)
  have d: "distinct (map (\<lambda>d. ss_uid (td_type d)) R)"
    using sorted by (simp add: sorted_wrt_map [symmetric] strict_sorted_iff comp_def)
  have "binary_search_by td_type uid_less R t = int i"
    using binary_search_by_eq_key_index [of uid_less ss_uid td_type R t, OF uid_less_key s2]
      key_index_distinct [OF d i(1)] i(2) by simp
  with i ch show ?thesis by (auto simp: find_tag_type_id_def)
qed

lemma fold_checked_tbitarray_Inr:
  "fold_checked (tbitarray_set n) is ws = Inr ws' \<Longrightarrow>
   (\<forall>i \<in> set is. 0 \<le> i \<and> nat i < n) \<and> ws' = fold (bm_set True) (map nat is) ws"
  by (induction "is" arbitrary: ws) (auto simp: tbitarray_set_def split: if_splits)

text \<open>A new archetype's rows, the component types sorted by (size, unique id),
  are its signature's types in id order.\<close>

lemma sorted_types_match_ids:
  assumes sorted: "sorted_wrt (\<lambda>x y. size_uid_key x < size_uid_key y) ts"
    and ids: "list_all2 (\<lambda>t c. 0 \<le> c \<and> nat c < length ts \<and> ts ! nat c = t) comps cids"
    and dist: "distinct comps"
    and bits: "\<And>j. j < length ts \<Longrightarrow> P j \<longleftrightarrow> j \<in> nat ` set cids"
  shows "sort_key size_uid_key comps = map (\<lambda>i. ts ! i) (filter P [0..<length ts])"
proof (rule sorted_key_unique [of size_uid_key])
  have sub: "set comps \<subseteq> set ts"
  proof
    fix t assume "t \<in> set comps"
    then obtain i where "i < length comps" "comps ! i = t" by (auto simp: in_set_conv_nth)
    with ids have "nat (cids ! i) < length ts" "ts ! nat (cids ! i) = t"
      by (auto simp: list_all2_conv_all_nth)
    then show "t \<in> set ts" by (metis nth_mem)
  qed
  have "inj_on size_uid_key (set comps)"
    using sorted_key_inj [OF sorted] sub by (rule inj_on_subset)
  then have "distinct (map size_uid_key comps)" using dist by (simp add: distinct_map)
  then show "sorted_wrt (\<lambda>x y. size_uid_key x < size_uid_key y) (sort_key size_uid_key comps)"
    by (rule sorted_wrt_sort_key_strict)
  have lt: "i < j \<Longrightarrow> j < length ts \<Longrightarrow> size_uid_key (ts ! i) < size_uid_key (ts ! j)" for i j
    using sorted by (simp add: sorted_wrt_iff_nth_less)
  have "sorted_wrt (<) (filter P [0..<length ts])"
    by (intro sorted_wrt_filter) (simp add: sorted_wrt_upt)
  then show "sorted_wrt (\<lambda>x y. size_uid_key x < size_uid_key y) (map (\<lambda>i. ts ! i) (filter P [0..<length ts]))"
    unfolding sorted_wrt_map by (rule sorted_wrt_mono_rel [rotated]) (auto intro: lt)
  have "set (map (\<lambda>i. ts ! i) (filter P [0..<length ts])) = (\<lambda>i. ts ! i) ` (nat ` set cids)"
  proof -
    have "nat ` set cids \<subseteq> {..<length ts}"
      using ids by (auto simp: list_all2_conv_all_nth in_set_conv_nth)
    then have "{j \<in> {0..<length ts}. P j} = nat ` set cids" using bits by auto
    then show ?thesis by (simp add: image_image)
  qed
  also have "\<dots> = set comps"
    using ids by (force simp: list_all2_conv_all_nth in_set_conv_nth)
  finally show "set (sort_key size_uid_key comps) = set (map (\<lambda>i. ts ! i) (filter P [0..<length ts]))"
    by simp
qed

text \<open>The ids of registered types, as \<open>InternalFindArchetypeID\<close> computes them.\<close>

lemma comp_ids_registered:
  assumes inv: "ecs_inv s" and reg: "set comps \<subseteq> set (map td_type (registered_components s))"
    and m: "map_checked (get_comp_type_id s) comps = Inr cids"
  shows "list_all2 (\<lambda>t c. 0 \<le> c \<and> nat c < length (registered_components s) \<and>
           map td_type (registered_components s) ! nat c = t) comps cids"
proof -
  have "list_all2 (\<lambda>t c. get_comp_type_id s t = Inr c) comps cids"
    using m by (simp add: map_checked_Inr_iff)
  then show ?thesis
  proof (rule list.rel_mono_strong)
    fix t c assume t: "t \<in> set comps" and "c \<in> set cids" and c: "get_comp_type_id s t = Inr c"
    have ch: "is_child_of t (ecs_comp_base s)" using inv reg t by (auto simp: ecs_inv_def list_all_iff)
    have tr: "t \<in> set (map td_type (registered_components s))" using reg t by blast
    have so: "sorted_wrt (\<lambda>x y. size_uid_key x < size_uid_key y) (map td_type (registered_components s))" using inv by (simp add: ecs_inv_def)
    obtain i where "i < length (registered_components s)"
        "find_comp_type_id (ecs_comp_base s) (registered_components s) t = Inr (int i)"
        "td_type (registered_components s ! i) = t"
      using find_comp_type_id_registered [OF so tr ch] by blast
    moreover from this(2) c have "c = int i" by (simp add: get_comp_type_id_def)
    ultimately show "0 \<le> c \<and> nat c < length (registered_components s) \<and> map td_type (registered_components s) ! nat c = t"
      by simp
  qed
qed

lemma tag_ids_registered:
  assumes inv: "ecs_inv s" and reg: "set tags \<subseteq> set (map td_type (registered_tags s))"
    and m: "map_checked (get_tag_type_id s) tags = Inr tids"
  shows "\<forall>c \<in> set tids. 0 \<le> c \<and> nat c < length (registered_tags s)"
proof -
  have "list_all2 (\<lambda>t c. get_tag_type_id s t = Inr c) tags tids"
    using m by (simp add: map_checked_Inr_iff)
  then have "list_all2 (\<lambda>t c. 0 \<le> c \<and> nat c < length (registered_tags s)) tags tids"
  proof (rule list.rel_mono_strong)
    fix t c assume t: "t \<in> set tags" and "c \<in> set tids" and c: "get_tag_type_id s t = Inr c"
    have ch: "is_child_of t (ecs_tag_base s)" using inv reg t by (auto simp: ecs_inv_def list_all_iff)
    have tr: "t \<in> set (map td_type (registered_tags s))" using reg t by blast
    have so: "sorted_wrt (\<lambda>x y. ss_uid x < ss_uid y) (map td_type (registered_tags s))" using inv by (simp add: ecs_inv_def)
    obtain i where "i < length (registered_tags s)"
        "find_tag_type_id (ecs_tag_base s) (registered_tags s) t = Inr (int i)"
      using find_tag_type_id_registered [OF so tr ch] by blast
    moreover from this(2) c have "c = int i" by (simp add: get_tag_type_id_def)
    ultimately show "0 \<le> c \<and> nat c < length (registered_tags s)" by simp
  qed
  then show ?thesis by (auto simp: list_all2_conv_all_nth in_set_conv_nth)
qed

lemma arch_ok_same_types:
  "map td_type (registered_components s') = map td_type (registered_components s) \<Longrightarrow>
   num_comps_and_tags s' = num_comps_and_tags s \<Longrightarrow> arch_ok s' = arch_ok s"
  by (simp add: arch_ok_def fun_eq_iff)

lemma records_ok_append:
  assumes "entity_records s' = entity_records s"
    and "registered_archetypes s' = registered_archetypes s @ new" and "records_ok s"
  shows "records_ok s'"
proof -
  have "record_ok s' r" if "record_ok s r" for r
    using that assms(2) by (auto simp: record_ok_def valid_archetype_id_def nth_append)
  then show ?thesis using assms(1,3) by (auto simp: records_ok_def split: option.splits)
qed

text \<open>The signature mask: within the component bits, exactly the component
  ids are set (tag ids, registered, land at or above the component count).\<close>

lemma signature_mask_comp_bits:
  assumes m: "signature_mask s cids tids = Inr sig"
    and t: "\<forall>c \<in> set tids. 0 \<le> c" and j: "j < length (registered_components s)"
  shows "bm_get sig j \<longleftrightarrow> j \<in> nat ` set cids"
proof -
  let ?is = "cids @ map (\<lambda>t. t + int (length (registered_components s))) tids"
  have f: "(\<forall>i \<in> set ?is. 0 \<le> i \<and> nat i < num_comps_and_tags s)"
      "sig = fold (bm_set True) (map nat ?is) (bm_zeroed (num_comps_and_tags s))"
    using fold_checked_tbitarray_Inr [OF m [unfolded signature_mask_def]] by simp_all
  have "sig = bm_from_ids (num_comps_and_tags s) (map nat ?is)" using f(2) by (simp add: bm_from_ids_def)
  moreover have "\<forall>k \<in> set (map nat ?is). k < num_comps_and_tags s" using f(1) by auto
  moreover have "j < num_comps_and_tags s" using j by (simp add: num_comps_and_tags_def)
  ultimately have "bm_get sig j \<longleftrightarrow> j \<in> set (map nat ?is)" by (simp add: bm_get_from_ids)
  also have "\<dots> \<longleftrightarrow> j \<in> nat ` set cids" using t j by force
  finally show ?thesis .
qed

text \<open>\<open>InternalFindArchetypeID\<close> keeps the invariant, for a signature of
  distinct registered types with at least one component.\<close>

lemma internal_find_archetype_id_inv:
  assumes inv: "ecs_inv s" and r: "internal_find_archetype_id s comps tags = Inr (s', aid)"
    and ne: "comps \<noteq> []" and dist: "distinct comps"
    and rc: "set comps \<subseteq> set (map td_type (registered_components s))"
    and rt: "set tags \<subseteq> set (map td_type (registered_tags s))"
  shows "ecs_inv s'"
  using r
proof (cases rule: internal_find_archetype_id_cases)
  case (1 cids tids sig)
  with inv show ?thesis by simp
next
  case (2 cids tids sig cds tds)
  note k = internal_find_archetype_id_keeps [OF r]
  have same: "num_comps_and_tags s' = num_comps_and_tags s"
    using lookups_of_same_types [of s' s] k by simp
  let ?ts = "map td_type (registered_components s)"
  let ?A = "arch_new sig (num_comps_and_tags s) (sort_key size_uid_key comps)"
  have ls: "length sig = bit_words (num_comps_and_tags s)" by (rule signature_mask_length [OF 2(3)])
  have ids: "list_all2 (\<lambda>t c. 0 \<le> c \<and> nat c < length ?ts \<and> ?ts ! nat c = t) comps cids"
    using comp_ids_registered [OF inv rc 2(1)] by simp
  have tpos: "\<forall>c \<in> set tids. 0 \<le> c" using tag_ids_registered [OF inv rt 2(2)] by blast
  have sorted: "sorted_wrt (\<lambda>x y. size_uid_key x < size_uid_key y) ?ts" using inv by (simp add: ecs_inv_def)
  have rows: "map row_type (rows ?A) = map (\<lambda>i. ?ts ! i) (filter (bm_get sig) [0..<length ?ts])"
    using sorted_types_match_ids [OF sorted ids dist, of "bm_get sig"]
      signature_mask_comp_bits [OF 2(3) tpos] by (simp add: arch_new_def comp_def)
  have "bit_words (length ?ts) \<le> length sig"
    using ls by (simp add: bit_words_def num_comps_and_tags_def)
  then have "arch_rows_match ?ts ?A" using rows by (simp add: arch_rows_match_def comp_mask_arch_new [OF ls])
  moreover have "arch_inv ?A" by (rule arch_inv_new)
  moreover have "0 < num_rows ?A" using ne by (simp add: arch_new_def)
  ultimately have newok: "arch_ok s ?A" by (simp add: arch_ok_def comp_mask_arch_new [OF ls] ls)
  have ao: "arch_ok s' = arch_ok s" using k same by (intro arch_ok_same_types) simp_all
  have "records_ok s'" using inv 2 by (intro records_ok_append [of s' s]) (simp_all add: ecs_inv_def)
  moreover have "list_all (arch_ok s') (registered_archetypes s')" using inv newok ao 2 by (simp add: ecs_inv_def)
  ultimately show ?thesis using inv k by (simp add: ecs_inv_def)
qed

text \<open>Replacing an archetype by one that keeps its live columns keeps every
  entity record valid; emplacing a fresh valid record keeps them valid and
  distinct.\<close>

lemma records_ok_update_arch:
  assumes ok: "records_ok s" and v: "valid_archetype_id s aid"
    and nc: "num_columns (registered_archetypes s ! nat aid) \<le> num_columns a1"
    and lv: "\<forall>i < num_columns (registered_archetypes s ! nat aid).
               live_bit (registered_archetypes s ! nat aid) i \<longrightarrow> live_bit a1 i"
  shows "records_ok (s\<lparr>registered_archetypes := (registered_archetypes s)[nat aid := a1]\<rparr>)"
proof -
  let ?s' = "s\<lparr>registered_archetypes := (registered_archetypes s)[nat aid := a1]\<rparr>"
  have "record_ok ?s' r" if r: "record_ok s r" for r
  proof (cases "nat (er_archetype r) = nat aid")
    case True
    then show ?thesis using r nc lv v by (auto simp: record_ok_def valid_archetype_id_def)
  next
    case False
    then show ?thesis using r by (auto simp: record_ok_def valid_archetype_id_def)
  qed
  then show ?thesis using ok by (auto simp: records_ok_def split: option.splits)
qed

lemma record_ok_records [simp]: "record_ok (s\<lparr>entity_records := x\<rparr>) r = record_ok s r"
  by (simp add: record_ok_def valid_archetype_id_def)

lemma records_ok_emplace:
  assumes ok: "records_ok s" and r0: "record_ok s r0" and fresh: "Some r0 \<notin> set (entity_records s)"
  shows "records_ok (s\<lparr>entity_records := snd (emplace_at_lowest_free_index r0 (entity_records s))\<rparr>)"
proof -
  let ?xs = "entity_records s"
  let ?i = "lowest_free ?xs"
  have rok: "\<And>e r. e < length ?xs \<Longrightarrow> ?xs ! e = Some r \<Longrightarrow> record_ok s r"
    and inj: "\<And>e1 e2. e1 < length ?xs \<Longrightarrow> e2 < length ?xs \<Longrightarrow> e1 \<noteq> e2 \<Longrightarrow> ?xs ! e1 \<noteq> None \<Longrightarrow> ?xs ! e1 \<noteq> ?xs ! e2"
    using ok by (fastforce simp: records_ok_def)+
  have nr0: "\<And>e. e < length ?xs \<Longrightarrow> ?xs ! e \<noteq> Some r0" using fresh by (metis nth_mem)
  show ?thesis
  proof (cases "?i < length ?xs")
    case True
    then have ys: "snd (emplace_at_lowest_free_index r0 ?xs) = ?xs[?i := Some r0]"
      by (simp add: emplace_at_lowest_free_index_def Let_def)
    show ?thesis unfolding records_ok_def ys
      using rok inj nr0 r0 True
      by (auto simp: nth_list_update split: option.splits) blast
  next
    case False
    then have ys: "snd (emplace_at_lowest_free_index r0 ?xs) = ?xs @ [Some r0]"
      by (simp add: emplace_at_lowest_free_index_def Let_def)
    show ?thesis unfolding records_ok_def ys
      using rok inj nr0 r0
      by (auto simp: nth_append less_Suc_eq split: option.splits) blast
  qed
qed

lemma spawn_entity_cases:
  assumes "spawn_entity s comps tags = Inr (s', e)"
  obtains s1 aid a1 col where
    "internal_find_archetype_id s comps tags = Inr (s1, aid)" "valid_archetype_id s1 aid"
    "add_at_first_uninitialized None entity_alloc_chunk_size (registered_archetypes s1 ! nat aid) = Inr (a1, col)"
    "e = int (fst (emplace_at_lowest_free_index \<lparr>er_archetype = aid, er_column = col\<rparr> (entity_records s1)))"
    "s' = s1\<lparr>registered_archetypes := (registered_archetypes s1)[nat aid := a1],
             entity_records := snd (emplace_at_lowest_free_index \<lparr>er_archetype = aid, er_column = col\<rparr> (entity_records s1))\<rparr>"
proof -
  obtain s1 aid where f: "internal_find_archetype_id s comps tags = Inr (s1, aid)"
    using assms by (cases "internal_find_archetype_id s comps tags") (auto simp: spawn_entity_def)
  have v: "valid_archetype_id s1 aid"
    using assms f by (auto simp: spawn_entity_def split: if_splits)
  obtain a1 col where a: "add_at_first_uninitialized None entity_alloc_chunk_size (registered_archetypes s1 ! nat aid) = Inr (a1, col)"
    using assms f v
    by (cases "add_at_first_uninitialized None entity_alloc_chunk_size (registered_archetypes s1 ! nat aid)")
       (auto simp: spawn_entity_def)
  show ?thesis
    using that [OF f v a] assms f v a by (auto simp: spawn_entity_def split: prod.splits)
qed

text \<open>The column \<open>AddAtFirstUninitialized\<close> fills was not live before.\<close>

lemma first_free_column_fresh:
  "c = int (case first_free a of None \<Rightarrow> num_columns a | Some i \<Rightarrow> i) \<Longrightarrow>
   \<not> (nat c < num_columns a \<and> live_bit a (nat c))"
  by (auto dest: first_free_Some split: option.splits)

lemma list_all_update:
  "list_all P xs \<Longrightarrow> P x \<Longrightarrow> list_all P (xs[i := x])"
  by (auto simp: list_all_iff dest: set_update_subset_insert [THEN subsetD])

lemma arch_ok_update_arch [simp]:
  "arch_ok (s\<lparr>registered_archetypes := as, entity_records := recs\<rparr>) = arch_ok s"
  "arch_ok (s\<lparr>registered_archetypes := as\<rparr>) = arch_ok s"
  by (simp_all add: arch_ok_def num_comps_and_tags_def fun_eq_iff)

text \<open>\<open>InternalSpawnEntity\<close> on a well-formed subsystem, for a signature of
  distinct registered types with a component: the invariant holds after it, the
  entity id is the lowest free index, and its record names the archetype and
  a column that is live there now and was not before.\<close>

lemma spawn_entity_spec:
  assumes inv: "ecs_inv s" and sp: "spawn_entity s comps tags = Inr (s', e)"
    and ne: "comps \<noteq> []" and dist: "distinct comps"
    and rc: "set comps \<subseteq> set (map td_type (registered_components s))"
    and rt: "set tags \<subseteq> set (map td_type (registered_tags s))"
  shows "ecs_inv s' \<and> e = int (lowest_free (entity_records s)) \<and>
    get_comp_type_id s' = get_comp_type_id s \<and>
    map td_type (registered_components s') = map td_type (registered_components s) \<and>
    num_comps_and_tags s' = num_comps_and_tags s \<and>
    (\<exists>s1 aid col. internal_find_archetype_id s comps tags = Inr (s1, aid) \<and>
       entity_records s' = snd (emplace_at_lowest_free_index \<lparr>er_archetype = aid, er_column = col\<rparr> (entity_records s)) \<and>
       registered_components s' = registered_components s1 \<and>
       \<not> (nat col < num_columns (registered_archetypes s1 ! nat aid) \<and> live_bit (registered_archetypes s1 ! nat aid) (nat col)) \<and>
       (\<forall>r < num_rows (registered_archetypes s1 ! nat aid).
          row_cell (rows (registered_archetypes s' ! nat aid) ! r) (nat col) =
          Live (ss_default (row_type (rows (registered_archetypes s1 ! nat aid) ! r)))) \<and>
       map row_type (rows (registered_archetypes s' ! nat aid)) = map row_type (rows (registered_archetypes s1 ! nat aid)) \<and>
       comp_mask (registered_archetypes s' ! nat aid) = comp_mask (registered_archetypes s1 ! nat aid))"
  using sp
proof (cases rule: spawn_entity_cases)
  case (1 s1 aid a1 col)
  note k = internal_find_archetype_id_keeps [OF 1(1)]
  have inv1: "ecs_inv s1" by (rule internal_find_archetype_id_inv [OF inv 1(1) ne dist rc rt])
  let ?as = "registered_archetypes s1"
  let ?a = "?as ! nat aid"
  have v: "nat aid < length ?as" "0 \<le> aid" using 1(2) by (simp_all add: valid_archetype_id_def)
  have aok: "arch_ok s1 ?a" using inv1 v by (simp add: ecs_inv_def list_all_iff)
  then have ainv: "arch_inv ?a" by (simp add: arch_ok_def)
  have k0: "0 < entity_alloc_chunk_size" by (simp add: entity_alloc_chunk_size_def)
  have cp: "case (None :: 'a list option) of None \<Rightarrow> True | Some vs \<Rightarrow> length vs = num_rows ?a" by simp
  obtain a' c where A: "add_at_first_uninitialized None entity_alloc_chunk_size ?a = Inr (a', c)" "arch_inv a'"
      "c = int (case first_free ?a of None \<Rightarrow> num_columns ?a | Some i \<Rightarrow> i)"
      "num_columns a' = (case first_free ?a of None \<Rightarrow> num_columns ?a + nat entity_alloc_chunk_size | Some i \<Rightarrow> num_columns ?a)"
      "live_bit a' (nat c)"
      "\<forall>i < num_columns a'. i \<noteq> nat c \<longrightarrow> live_bit a' i = (i < num_columns ?a \<and> live_bit ?a i)"
      "\<forall>r < num_rows ?a. row_cell (rows a' ! r) (nat c) =
         Live (case (None :: 'a list option) of None \<Rightarrow> ss_default (row_type (rows ?a ! r)) | Some vs \<Rightarrow> vs ! r)"
      "num_rows a' = num_rows ?a" "comp_mask a' = comp_mask ?a" "map row_type (rows a') = map row_type (rows ?a)"
    using add_at_first_uninitialized_spec [OF ainv k0 cp] by blast
  have a1: "a1 = a'" "col = c" using A(1) 1(3) by simp_all
  have fresh: "\<not> (nat c < num_columns ?a \<and> live_bit ?a (nat c))" by (rule first_free_column_fresh [OF A(3)])
  have ncle: "num_columns ?a \<le> num_columns a'" "nat c < num_columns a'" "0 \<le> c"
    using A(3,4) first_free_Some by (auto simp: entity_alloc_chunk_size_def split: option.splits)
  let ?s2 = "s1\<lparr>registered_archetypes := ?as[nat aid := a1]\<rparr>"
  have a1ok: "arch_ok s1 a1"
    using aok A(2,8,9,10) a1 by (simp add: arch_ok_def arch_rows_match_def)
  have lv: "\<forall>i < num_columns ?a. live_bit ?a i \<longrightarrow> live_bit a1 i"
  proof (intro allI impI)
    fix i assume i: "i < num_columns ?a" "live_bit ?a i"
    then have "i \<noteq> nat c" using fresh by auto
    with i A(6) ncle(1) a1 show "live_bit a1 i" by auto
  qed
  have rok2: "records_ok ?s2"
    using records_ok_update_arch [OF _ 1(2) _ lv] inv1 ncle a1 by (simp add: ecs_inv_def)
  let ?r0 = "\<lparr>er_archetype = aid, er_column = col\<rparr>"
  have r0: "record_ok ?s2 ?r0"
    using 1(2) ncle A(5) a1 v by (simp add: record_ok_def valid_archetype_id_def)
  have notin: "Some ?r0 \<notin> set (entity_records ?s2)"
  proof
    assume "Some ?r0 \<in> set (entity_records ?s2)"
    then obtain e' where "e' < length (entity_records s1)" "entity_records s1 ! e' = Some ?r0"
      by (auto simp: in_set_conv_nth)
    then have "record_ok s1 ?r0" using inv1 by (force simp: ecs_inv_def records_ok_def)
    then show False using fresh a1 by (simp add: record_ok_def)
  qed
  have rok': "records_ok s'"
    using records_ok_emplace [OF rok2 r0 notin] 1(5) by simp
  have "list_all (arch_ok s1) (?as[nat aid := a1])"
    using inv1 a1ok by (intro list_all_update) (simp_all add: ecs_inv_def)
  then have inv': "ecs_inv s'" using inv1 rok' 1(5) by (simp add: ecs_inv_def)
  have ids: "e = int (lowest_free (entity_records s))"
    using 1(4) k by (simp add: emplace_at_lowest_free_index_def Let_def)
  have same: "get_comp_type_id s1 = get_comp_type_id s" "num_comps_and_tags s1 = num_comps_and_tags s"
    using lookups_of_same_types [of s1 s] k by simp_all
  have "get_comp_type_id s' = get_comp_type_id s1" "num_comps_and_tags s' = num_comps_and_tags s1"
    using 1(5) by (simp_all add: get_comp_type_id_def num_comps_and_tags_def fun_eq_iff)
  moreover have "registered_archetypes s' ! nat aid = a1" using 1(5) v by simp
  ultimately show ?thesis
    using inv' ids 1(1) 1(5) k fresh A(7,9,10) a1 same by (intro conjI exI [of _ s1] exI [of _ aid] exI [of _ col]) simp_all
qed

text \<open>\<open>GetEntityComp\<close> on a well-formed subsystem: for a valid entity and a
  registered component type it never faults; it is \<open>nullptr\<close> exactly when the
  entity's archetype lacks the type, and otherwise the slot of the entity's
  column in the row of that type.\<close>

lemma get_entity_comp_reads:
  assumes inv: "ecs_inv s" and e: "0 \<le> e" "nat e < length (entity_records s)"
    and r: "entity_records s ! nat e = Some r"
    and t: "t \<in> set (map td_type (registered_components s))"
  shows "\<exists>i. get_comp_type_id s t = Inr (int i) \<and> i < length (registered_components s) \<and>
           td_type (registered_components s ! i) = t \<and>
           (if bm_get (comp_mask (registered_archetypes s ! nat (er_archetype r))) i
            then (\<exists>k. get_entity_comp s e t =
                        Inr (Some (row_cell (rows (registered_archetypes s ! nat (er_archetype r)) ! k)
                                            (nat (er_column r)))) \<and>
                      k < num_rows (registered_archetypes s ! nat (er_archetype r)) \<and>
                      get_comp_row (registered_archetypes s ! nat (er_archetype r)) (int i) = Inr (int k) \<and>
                      row_type (rows (registered_archetypes s ! nat (er_archetype r)) ! k) = t)
            else get_entity_comp s e t = Inr None)"
proof -
  let ?R = "registered_components s"
  let ?a = "registered_archetypes s ! nat (er_archetype r)"
  have ch: "is_child_of t (ecs_comp_base s)" using inv t by (auto simp: ecs_inv_def list_all_iff)
  have so: "sorted_wrt (\<lambda>x y. size_uid_key x < size_uid_key y) (map td_type ?R)" using inv by (simp add: ecs_inv_def)
  obtain i where i: "i < length ?R" "find_comp_type_id (ecs_comp_base s) ?R t = Inr (int i)" "td_type (?R ! i) = t"
    using find_comp_type_id_registered [OF so t ch] by blast
  have gi: "get_comp_type_id s t = Inr (int i)" using i(2) by (simp add: get_comp_type_id_def)
  have rok: "record_ok s r" using inv e r by (force simp: ecs_inv_def records_ok_def)
  then have va: "valid_archetype_id s (er_archetype r)" by (simp add: record_ok_def)
  then have aok: "arch_ok s ?a" using inv by (simp add: ecs_inv_def list_all_iff valid_archetype_id_def)
  have ve: "is_valid_entity s e" using e r by (simp add: is_valid_entity_def sparse_is_valid_index_def)
  have wd: "i div 64 < length (comp_mask ?a)"
    using aok i(1) bit_words_less [of i "num_comps_and_tags s"] by (simp add: arch_ok_def num_comps_and_tags_def)
  have hb: "entity_has_comp s e (int i) = Inr (bm_get (comp_mask ?a) i)"
    using ve r va wd by (simp add: entity_has_comp_def entity_has_bit_def mask_bit_def)
  show ?thesis
  proof (cases "bm_get (comp_mask ?a) i")
    case False
    then show ?thesis using gi hb ve i by (simp add: get_entity_comp_def)
  next
    case True
    have "arch_inv ?a" "arch_rows_match (map td_type ?R) ?a" using aok by (simp_all add: arch_ok_def)
    from get_comp_row_type [OF this, of i] i True
    obtain k where k: "get_comp_row ?a (int i) = Inr (int k)" "k < num_rows ?a" "row_type (rows ?a ! k) = t"
      by auto
    have "is_valid_row ?a (int k)" using k(2) by (simp add: is_valid_row_def)
    then have "get_entity_comp s e t = Inr (Some (row_cell (rows ?a ! k) (nat (er_column r))))"
      using gi hb ve True r k by (simp add: get_entity_comp_def)
    then show ?thesis using gi i True k by auto
  qed
qed

text \<open>With at most eight signature bits the byte compare of the archetype search
  covers every bit, so the archetype found or created has the bit of every
  component of the signature.\<close>

lemma find_archetype_has_comp_bits:
  assumes inv: "ecs_inv s" and r: "internal_find_archetype_id s comps tags = Inr (s1, aid)"
    and small: "num_comps_and_tags s \<le> 8"
    and rt: "set tags \<subseteq> set (map td_type (registered_tags s))"
    and t: "t \<in> set comps" and gi: "get_comp_type_id s t = Inr (int i)"
    and il: "i < length (registered_components s)"
  shows "bm_get (comp_mask (registered_archetypes s1 ! nat aid)) i"
  using r
proof (cases rule: internal_find_archetype_id_cases)
  case (1 cids tids sig)
  have tpos: "\<forall>c \<in> set tids. 0 \<le> c" using tag_ids_registered [OF inv rt 1(2)] by blast
  have "int i \<in> set cids"
    using 1(1) t gi by (auto simp: map_checked_Inr_iff list_all2_conv_all_nth in_set_conv_nth)
  then have sb: "bm_get sig i" using signature_mask_comp_bits [OF 1(3) tpos il] by force
  let ?a = "registered_archetypes s ! nat aid"
  have ix: "0 \<le> aid" "nat aid < length (registered_archetypes s)" "archetype_matches sig ?a"
    using index_of_by_predicate_Some [of "archetype_matches sig" "registered_archetypes s"] 1(4,5) by auto
  have "0 < num_rows ?a" using inv ix by (auto simp: ecs_inv_def list_all_iff arch_ok_def)
  then have "1 \<le> div_round_up (num_rows ?a) 8" by (simp add: div_round_up_def)
  moreover have "i < 8" using il small by (simp add: num_comps_and_tags_def)
  ultimately have "bm_get sig i = bm_get (comp_mask ?a) i"
    using ix(3) by (simp add: archetype_matches_def memcmp_eq_iff)
  with sb 1(6) show ?thesis by simp
next
  case (2 cids tids sig cds tds)
  have tpos: "\<forall>c \<in> set tids. 0 \<le> c" using tag_ids_registered [OF inv rt 2(2)] by blast
  have "int i \<in> set cids"
    using 2(1) t gi by (auto simp: map_checked_Inr_iff list_all2_conv_all_nth in_set_conv_nth)
  then have sb: "bm_get sig i" using signature_mask_comp_bits [OF 2(3) tpos il] by force
  have "registered_archetypes s1 ! nat aid = arch_new sig (num_comps_and_tags s) (sort_key size_uid_key comps)"
    using 2 by simp
  with sb show ?thesis by (simp only: comp_mask_arch_new [OF signature_mask_length [OF 2(3)]])
qed

lemma ecs_inv_registered_helper:
  assumes "distinct (map ss_uid ss)"
  shows "ecs_inv (ecs_registered cb tb ss)"
proof -
  note c = register_comps_facts [OF assms, of cb tb] and t = register_tags_facts [OF assms, of cb tb]
  obtain cs ts where r: "register_components_and_tags cb tb ss [] [] = (cs, ts)" by fastforce
  have "ecs_registered cb tb ss = \<lparr>entity_records = [], registered_components = cs, registered_tags = ts,
         registered_archetypes = [], ecs_comp_base = cb, ecs_tag_base = tb\<rparr>"
    by (simp add: ecs_registered_def r)
  then show ?thesis using c t r
    by (simp add: ecs_inv_def records_ok_def sorted_wrt_map list_all_iff)
qed

lemma spawn_entity_record:
  assumes inv: "ecs_inv s" and sp: "spawn_entity s comps tags = Inr (s', e)"
    and ne: "comps \<noteq> []" and dist: "distinct comps"
    and rc: "set comps \<subseteq> set (map td_type (registered_components s))"
    and rt: "set tags \<subseteq> set (map td_type (registered_tags s))"
  shows "is_valid_entity s' e \<and> (\<forall>j. j \<noteq> e \<longrightarrow> sparse_get (entity_records s') j = sparse_get (entity_records s) j)"
proof -
  obtain s1 aid col where
    eq: "entity_records s' = snd (emplace_at_lowest_free_index \<lparr>er_archetype = aid, er_column = col\<rparr> (entity_records s))"
    and e: "e = int (lowest_free (entity_records s))"
    using spawn_entity_spec [OF inv sp ne dist rc rt] by blast
  obtain i ys where em: "emplace_at_lowest_free_index \<lparr>er_archetype = aid, er_column = col\<rparr> (entity_records s) = (i, ys)"
    by fastforce
  from emplace_valid [OF em] eq em e show ?thesis
    by (auto simp: is_valid_entity_def sparse_get_def split: if_splits)
qed

lemma spawn_entity_keeps_invariant_helper:
  assumes "ecs_inv s" and "spawn_entity s comps tags = Inr (s', e)"
    and "comps \<noteq> []" and "distinct comps"
    and "set comps \<subseteq> set (map td_type (registered_components s))"
    and "set tags \<subseteq> set (map td_type (registered_tags s))"
  shows "ecs_inv s'"
  using spawn_entity_spec [OF assms] by blast

text \<open>The facts the witnesses below share: the registered fixture is
  well-formed and spawns the two-component signature.\<close>

lemma ex_ecs0_inv: "ecs_inv ex_ecs0"
  unfolding ex_ecs0_def by (rule ecs_inv_registered_helper) code_simp

lemma ex_spawn_hyps:
  "[ex_c16, ex_c4] \<noteq> []" "distinct [ex_c16, ex_c4]"
  "set [ex_c16, ex_c4] \<subseteq> set (map td_type (registered_components ex_ecs0))"
  "set ([] :: nat script_struct list) \<subseteq> set (map td_type (registered_tags ex_ecs0))"
  "spawn_entity ex_ecs0 [ex_c16, ex_c4] [] =
     Inr (fst (projr (spawn_entity ex_ecs0 [ex_c16, ex_c4] [])), snd (projr (spawn_entity ex_ecs0 [ex_c16, ex_c4] [])))"
  "num_comps_and_tags ex_ecs0 \<le> 8"
  by code_simp+

text \<open>Destroying an entity: its slot is freed, its column cleared, and every
  other record still names a live column (no other record shares the column).\<close>

lemma records_ok_destroy:
  assumes ok: "records_ok s" and k: "k < length (entity_records s)" and r0: "entity_records s ! k = Some r0"
    and nc: "num_columns a1 = num_columns (registered_archetypes s ! nat (er_archetype r0))"
    and lv: "\<forall>i. live_bit a1 i = (i \<noteq> nat (er_column r0) \<and> live_bit (registered_archetypes s ! nat (er_archetype r0)) i)"
  shows "records_ok (s\<lparr>registered_archetypes := (registered_archetypes s)[nat (er_archetype r0) := a1],
                        entity_records := (entity_records s)[k := None]\<rparr>)"
proof -
  let ?s' = "s\<lparr>registered_archetypes := (registered_archetypes s)[nat (er_archetype r0) := a1],
                entity_records := (entity_records s)[k := None]\<rparr>"
  have rok: "\<And>e r. e < length (entity_records s) \<Longrightarrow> entity_records s ! e = Some r \<Longrightarrow> record_ok s r"
    and inj: "\<And>e1 e2. e1 < length (entity_records s) \<Longrightarrow> e2 < length (entity_records s) \<Longrightarrow> e1 \<noteq> e2 \<Longrightarrow>
                entity_records s ! e1 \<noteq> None \<Longrightarrow> entity_records s ! e1 \<noteq> entity_records s ! e2"
    using ok by (fastforce simp: records_ok_def)+
  have ok0: "record_ok s r0" using rok k r0 .
  have keep: "record_ok ?s' r" if e: "e < length (entity_records s)" "e \<noteq> k" "entity_records s ! e = Some r" for e r
  proof -
    have rr: "record_ok s r" using rok e(1,3) .
    have ne: "r \<noteq> r0" using inj [OF e(1) k e(2)] e(3) r0 by auto
    show ?thesis
    proof (cases "nat (er_archetype r) = nat (er_archetype r0)")
      case True
      moreover have "0 \<le> er_archetype r" "0 \<le> er_archetype r0"
        using rr ok0 by (simp_all add: record_ok_def valid_archetype_id_def)
      ultimately have "er_archetype r = er_archetype r0" by (simp add: nat_eq_iff2)
      with ne have "er_column r \<noteq> er_column r0" by (cases r, cases r0) simp
      moreover have "0 \<le> er_column r" "0 \<le> er_column r0" using rr ok0 by (simp_all add: record_ok_def)
      ultimately have "nat (er_column r) \<noteq> nat (er_column r0)" by (simp add: nat_eq_iff2)
      then show ?thesis using rr True nc lv by (auto simp: record_ok_def valid_archetype_id_def)
    next
      case False
      then show ?thesis using rr by (auto simp: record_ok_def valid_archetype_id_def)
    qed
  qed
  show ?thesis unfolding records_ok_def
    using keep inj k by (auto simp: nth_list_update split: option.splits if_splits)
qed

lemma destroy_entity_spec:
  assumes inv: "ecs_inv s" and v: "is_valid_entity s e"
  shows "\<exists>s' r. entity_records s ! nat e = Some r \<and> destroy_entity s e = Inr s' \<and> ecs_inv s' \<and>
           entity_records s' = (entity_records s)[nat e := None] \<and>
           registered_components s' = registered_components s \<and> registered_tags s' = registered_tags s \<and>
           ecs_comp_base s' = ecs_comp_base s \<and> ecs_tag_base s' = ecs_tag_base s \<and>
           length (registered_archetypes s') = length (registered_archetypes s) \<and>
           \<not> live_bit (registered_archetypes s' ! nat (er_archetype r)) (nat (er_column r))"
proof -
  obtain r where e: "0 \<le> e" "nat e < length (entity_records s)" "entity_records s ! nat e = Some r"
    using v by (auto simp: is_valid_entity_def sparse_is_valid_index_def)
  have ok: "record_ok s r" using inv e by (force simp: ecs_inv_def records_ok_def)
  let ?a = "registered_archetypes s ! nat (er_archetype r)"
  let ?j = "nat (er_column r)"
  have va: "valid_archetype_id s (er_archetype r)" and j: "?j < num_columns ?a" and lj: "live_bit ?a ?j"
    and cj: "int ?j = er_column r"
    using ok by (simp_all add: record_ok_def)
  have aok: "arch_ok s ?a" using inv va by (simp add: ecs_inv_def list_all_iff valid_archetype_id_def)
  then have ainv: "arch_inv ?a" by (simp add: arch_ok_def)
  obtain ws where "init_mask ?a = Some ws"
    and d: "destruct_at (int ?j) ?a =
           Inr (?a\<lparr>init_mask := Some (bm_set False ?j ws), rows := map (\<lambda>r. row_put r ?j Uninit) (rows ?a)\<rparr>, True)"
    using destruct_at_live [OF ainv j lj] by blast
  define a1 where "a1 = ?a\<lparr>init_mask := Some (bm_set False ?j ws), rows := map (\<lambda>r. row_put r ?j Uninit) (rows ?a)\<rparr>"
  have F: "True \<and> arch_inv a1 \<and> num_columns a1 = num_columns ?a \<and> (\<forall>i. live_bit a1 i = (i \<noteq> ?j \<and> live_bit ?a i)) \<and>
      num_rows a1 = num_rows ?a \<and> comp_mask a1 = comp_mask ?a \<and> map row_type (rows a1) = map row_type (rows ?a)"
    using destruct_at_frees [OF ainv j lj d [folded a1_def]] .
  have rm: "sparse_remove_at e (entity_records s) = Inr ((entity_records s)[nat e := None])"
    using v by (simp add: sparse_remove_at_def is_valid_entity_def)
  define s' where "s' = s\<lparr>registered_archetypes := (registered_archetypes s)[nat (er_archetype r) := a1],
                        entity_records := (entity_records s)[nat e := None]\<rparr>"
  have de: "destroy_entity s e = Inr s'"
    using v e(3) va d rm cj by (simp add: destroy_entity_def s'_def a1_def)
  have a1ok: "arch_ok s a1" using aok F by (simp add: arch_ok_def arch_rows_match_def)
  have "list_all (arch_ok s) ((registered_archetypes s)[nat (er_archetype r) := a1])"
    using inv a1ok by (intro list_all_update) (simp_all add: ecs_inv_def)
  moreover have "records_ok s'"
    unfolding s'_def using records_ok_destroy [OF _ e(2,3)] inv F by (simp add: ecs_inv_def)
  ultimately have "ecs_inv s'" using inv by (simp add: ecs_inv_def s'_def)
  moreover have "\<not> live_bit (registered_archetypes s' ! nat (er_archetype r)) ?j"
    using F va by (simp add: s'_def valid_archetype_id_def)
  ultimately show ?thesis using de e(3) by (auto simp: s'_def)
qed

section \<open>Properties\<close>

text \<open>The record \<open>EmplaceAtLowestFreeIndex\<close> stores, read back at the index it
  returns; and the row count of a well-formed subsystem's archetype.\<close>

lemma emplaced_record:
  assumes recs: "entity_records s' = snd (emplace_at_lowest_free_index r0 (entity_records s))"
    and e: "e = int (lowest_free (entity_records s))"
  shows "0 \<le> e \<and> nat e < length (entity_records s') \<and> entity_records s' ! nat e = Some r0"
proof -
  obtain j ys where em: "emplace_at_lowest_free_index r0 (entity_records s) = (j, ys)" by fastforce
  from emplace_valid [OF em] have "j = lowest_free (entity_records s)" "sparse_get ys (int j) = Inr r0" by blast+
  then show ?thesis
    using recs em e by (auto simp: sparse_get_def sparse_is_valid_index_def split: if_splits option.splits)
qed

lemma arch_num_rows:
  "ecs_inv s \<Longrightarrow> valid_archetype_id s aid \<Longrightarrow>
   num_rows (registered_archetypes s ! nat aid) = length (rows (registered_archetypes s ! nat aid))"
  by (auto simp: ecs_inv_def list_all_iff arch_ok_def arch_inv_def valid_archetype_id_def)

text \<open>Claim C1: InternalSpawnEntity keeps the subsystem well-formed: starting
  from a well-formed subsystem and a signature of distinct registered types with
  at least one component, the registry stays sorted, every archetype keeps its
  invariant and its rows in id order, and every entity record names a distinct
  live column.\<close>

theorem spawn_entity_keeps_invariant:
  assumes "ecs_inv s" and "spawn_entity s comps tags = Inr (s', e)"
    and "comps \<noteq> []" and "distinct comps"
    and "set comps \<subseteq> set (map td_type (registered_components s))"
    and "set tags \<subseteq> set (map td_type (registered_tags s))"
  shows "ecs_inv s'"
  using spawn_entity_spec [OF assms] by blast

theorem spawn_entity_keeps_invariant_witness:
  "ecs_inv (fst (projr (spawn_entity ex_ecs0 [ex_c16, ex_c4] [])))"
  by (rule spawn_entity_keeps_invariant [OF ex_ecs0_inv ex_spawn_hyps(5) ex_spawn_hyps(1-4)])

text \<open>Claim C17: InternalSpawnEntity gives the new entity the lowest free entity
  index, makes that index valid and leaves the record of every other index as it
  was.\<close>

theorem spawn_entity_lowest_free_id:
  assumes "ecs_inv s" and "spawn_entity s comps tags = Inr (s', e)"
    and "comps \<noteq> []" and "distinct comps"
    and "set comps \<subseteq> set (map td_type (registered_components s))"
    and "set tags \<subseteq> set (map td_type (registered_tags s))"
  shows "e = int (lowest_free (entity_records s)) \<and> is_valid_entity s' e \<and>
    (\<forall>j. j \<noteq> e \<longrightarrow> sparse_get (entity_records s') j = sparse_get (entity_records s) j)"
  using spawn_entity_spec [OF assms] spawn_entity_record [OF assms] by blast

theorem spawn_entity_lowest_free_id_witness:
  "snd (projr (spawn_entity ex_ecs0 [ex_c16, ex_c4] [])) = 0 \<and>
   is_valid_entity (fst (projr (spawn_entity ex_ecs0 [ex_c16, ex_c4] []))) 0"
proof -
  have l: "lowest_free (entity_records ex_ecs0) = 0" by code_simp
  note r = spawn_entity_lowest_free_id [OF ex_ecs0_inv ex_spawn_hyps(5) ex_spawn_hyps(1-4)]
  have z: "snd (projr (spawn_entity ex_ecs0 [ex_c16, ex_c4] [])) = 0" using r l by simp
  have "is_valid_entity (fst (projr (spawn_entity ex_ecs0 [ex_c16, ex_c4] []))) (snd (projr (spawn_entity ex_ecs0 [ex_c16, ex_c4] [])))"
    using r by blast
  then show ?thesis unfolding z by simp
qed

text \<open>Claim C18: With at most eight component and tag types (so that the
  archetype search compares every signature bit), InternalSpawnEntity gives the
  new entity the default value of every component of its signature: GetEntityComp
  reads a live slot holding the type's default.\<close>

theorem spawn_entity_constructs_defaults:
  assumes inv: "ecs_inv s" and sp: "spawn_entity s comps tags = Inr (s', e)"
    and ne: "comps \<noteq> []" and dist: "distinct comps"
    and rc: "set comps \<subseteq> set (map td_type (registered_components s))"
    and rt: "set tags \<subseteq> set (map td_type (registered_tags s))"
    and small: "num_comps_and_tags s \<le> 8" and t: "t \<in> set comps"
  shows "get_entity_comp s' e t = Inr (Some (Live (ss_default t)))"
proof -
  note S = spawn_entity_spec [OF inv sp ne dist rc rt]
  obtain s1 aid col where
      f: "internal_find_archetype_id s comps tags = Inr (s1, aid)"
    and recs: "entity_records s' = snd (emplace_at_lowest_free_index \<lparr>er_archetype = aid, er_column = col\<rparr> (entity_records s))"
    and cells: "\<forall>r < num_rows (registered_archetypes s1 ! nat aid).
          row_cell (rows (registered_archetypes s' ! nat aid) ! r) (nat col) =
          Live (ss_default (row_type (rows (registered_archetypes s1 ! nat aid) ! r)))"
    and rt': "map row_type (rows (registered_archetypes s' ! nat aid)) = map row_type (rows (registered_archetypes s1 ! nat aid))"
    and cm: "comp_mask (registered_archetypes s' ! nat aid) = comp_mask (registered_archetypes s1 ! nat aid)"
    using S by blast
  have inv': "ecs_inv s'" and e: "e = int (lowest_free (entity_records s))"
    and gs: "get_comp_type_id s' = get_comp_type_id s"
    and ts: "map td_type (registered_components s') = map td_type (registered_components s)"
    using S by simp_all
  have ej: "0 \<le> e" "nat e < length (entity_records s')" "entity_records s' ! nat e = Some \<lparr>er_archetype = aid, er_column = col\<rparr>"
    using emplaced_record [OF recs e] by simp_all
  have tr: "t \<in> set (map td_type (registered_components s'))" using rc t ts by auto
  obtain i where i: "get_comp_type_id s' t = Inr (int i)" "i < length (registered_components s')"
      "td_type (registered_components s' ! i) = t"
    and br: "if bm_get (comp_mask (registered_archetypes s' ! nat aid)) i
            then (\<exists>k. get_entity_comp s' e t = Inr (Some (row_cell (rows (registered_archetypes s' ! nat aid) ! k) (nat col))) \<and>
                    k < num_rows (registered_archetypes s' ! nat aid) \<and>
                    get_comp_row (registered_archetypes s' ! nat aid) (int i) = Inr (int k) \<and>
                    row_type (rows (registered_archetypes s' ! nat aid) ! k) = t)
            else get_entity_comp s' e t = Inr None"
    using get_entity_comp_reads [OF inv' ej tr] unfolding entity_record.select_convs by blast
  have il: "i < length (registered_components s)" using i(2) ts by (metis length_map)
  have "bm_get (comp_mask (registered_archetypes s1 ! nat aid)) i"
    using find_archetype_has_comp_bits [OF inv f small rt t _ il] i(1) gs by simp
  then obtain k where k: "get_entity_comp s' e t = Inr (Some (row_cell (rows (registered_archetypes s' ! nat aid) ! k) (nat col)))"
      "k < num_rows (registered_archetypes s' ! nat aid)" "row_type (rows (registered_archetypes s' ! nat aid) ! k) = t"
    using br cm by auto
  have v1: "valid_archetype_id s1 aid" using internal_find_archetype_id_keeps [OF f] by simp
  have v': "valid_archetype_id s' aid" using ej inv' by (force simp: ecs_inv_def records_ok_def record_ok_def)
  have nr: "num_rows (registered_archetypes s' ! nat aid) = num_rows (registered_archetypes s1 ! nat aid)"
    "num_rows (registered_archetypes s1 ! nat aid) = length (rows (registered_archetypes s1 ! nat aid))"
    using arch_num_rows [OF inv' v'] arch_num_rows [OF internal_find_archetype_id_inv [OF inv f ne dist rc rt] v1]
      arg_cong [OF rt', of length] by simp_all
  have kl: "k < length (rows (registered_archetypes s1 ! nat aid))" using k(2) nr by simp
  have kl': "k < length (rows (registered_archetypes s' ! nat aid))"
    using kl arg_cong [OF rt', of length] by simp
  have "row_type (rows (registered_archetypes s1 ! nat aid) ! k) = map row_type (rows (registered_archetypes s1 ! nat aid)) ! k"
    using kl by simp
  also have "\<dots> = map row_type (rows (registered_archetypes s' ! nat aid)) ! k" using rt' by simp
  also have "\<dots> = t" using kl' k(3) by simp
  finally have "row_type (rows (registered_archetypes s1 ! nat aid) ! k) = t" .
  with k(1,2) cells nr show ?thesis by simp
qed

theorem spawn_entity_constructs_defaults_witness:
  "get_entity_comp (fst (projr (spawn_entity ex_ecs0 [ex_c16, ex_c4] [])))
     (snd (projr (spawn_entity ex_ecs0 [ex_c16, ex_c4] []))) ex_c16 = Inr (Some (Live 5))"
proof -
  have t: "ex_c16 \<in> set [ex_c16, ex_c4]" by simp
  have d: "ss_default ex_c16 = 5" by (simp add: ex_c16_def)
  show ?thesis
    using spawn_entity_constructs_defaults [OF ex_ecs0_inv ex_spawn_hyps(5) ex_spawn_hyps(1-4) ex_spawn_hyps(6) t] d
    by simp
qed

text \<open>Claim C19: The registration step of Initialize establishes the subsystem
  invariant when the script structs have distinct unique ids.\<close>

theorem registration_establishes_invariant:
  "distinct (map ss_uid ss) \<Longrightarrow> ecs_inv (ecs_registered cb tb ss)"
  by (rule ecs_inv_registered_helper)

theorem registration_establishes_invariant_witness:
  "ecs_inv (ecs_registered ex_comp_base ex_tag_base ex_structs)"
proof -
  have "distinct (map ss_uid ex_structs)" by code_simp
  then show ?thesis by (rule registration_establishes_invariant)
qed

text \<open>Row derivation: in a well-formed subsystem, for every archetype
  and every registered component whose signature bit is set, GetCompRow returns a
  valid row and that row's type is the component.\<close>

theorem get_comp_row_finds_component:
  assumes "ecs_inv s" and "a \<in> set (registered_archetypes s)"
    and "i < length (registered_components s)" and "bm_get (comp_mask a) i"
  shows "\<exists>k. get_comp_row a (int i) = Inr (int k) \<and> k < num_rows a \<and>
           row_type (rows a ! k) = td_type (registered_components s ! i)"
proof -
  have "arch_inv a" "arch_rows_match (map td_type (registered_components s)) a"
    using assms(1,2) by (auto simp: ecs_inv_def list_all_iff arch_ok_def)
  from get_comp_row_type [OF this, of i] assms(3,4) show ?thesis by simp
qed

theorem get_comp_row_finds_component_witness:
  "get_comp_row (hd (registered_archetypes (fst (projr (spawn_entity ex_ecs0 [ex_c16, ex_c4] []))))) 1 = Inr 1 \<and>
   row_type (rows (hd (registered_archetypes (fst (projr (spawn_entity ex_ecs0 [ex_c16, ex_c4] []))))) ! 1) = ex_c16"
proof -
  let ?s = "fst (projr (spawn_entity ex_ecs0 [ex_c16, ex_c4] []))"
  have inv: "ecs_inv ?s"
    by (rule spawn_entity_keeps_invariant_helper [OF ex_ecs0_inv ex_spawn_hyps(5) ex_spawn_hyps(1-4)])
  have h: "hd (registered_archetypes ?s) \<in> set (registered_archetypes ?s)" "1 < length (registered_components ?s)"
    "bm_get (comp_mask (hd (registered_archetypes ?s))) 1" "td_type (registered_components ?s ! 1) = ex_c16"
    by code_simp+
  from get_comp_row_finds_component [OF inv h(1-3)] obtain k where
    k: "get_comp_row (hd (registered_archetypes ?s)) 1 = Inr (int k)"
       "row_type (rows (hd (registered_archetypes ?s)) ! k) = ex_c16"
    using h(4) by auto
  moreover have "get_comp_row (hd (registered_archetypes ?s)) 1 = Inr 1" by code_simp
  ultimately show ?thesis by simp
qed

text \<open>Claim C13: GetEntityComp on a well-formed subsystem, for a live entity and
  a registered component type, never faults: it is nullptr exactly when the
  entity's archetype lacks the type, and otherwise the entity's slot in the row
  whose type is the requested one.\<close>

theorem get_entity_comp_correct:
  assumes "ecs_inv s" and "is_valid_entity s e"
    and "t \<in> set (map td_type (registered_components s))"
  shows "\<exists>r i. entity_records s ! nat e = Some r \<and> get_comp_type_id s t = Inr (int i) \<and>
           (if bm_get (comp_mask (registered_archetypes s ! nat (er_archetype r))) i
            then (\<exists>k. get_entity_comp s e t =
                        Inr (Some (row_cell (rows (registered_archetypes s ! nat (er_archetype r)) ! k)
                                            (nat (er_column r)))) \<and>
                      row_type (rows (registered_archetypes s ! nat (er_archetype r)) ! k) = t)
            else get_entity_comp s e t = Inr None)"
proof -
  obtain r where e: "0 \<le> e" "nat e < length (entity_records s)" "entity_records s ! nat e = Some r"
    using assms(2) by (auto simp: is_valid_entity_def sparse_is_valid_index_def)
  from get_entity_comp_reads [OF assms(1) e assms(3)] e(3) show ?thesis by (auto split: if_splits)
qed

theorem get_entity_comp_correct_witness:
  "get_entity_comp (fst (projr (spawn_entity ex_ecs0 [ex_c16, ex_c4] []))) 0 ex_c4 = Inr (Some (Live 6))"
proof -
  let ?s = "fst (projr (spawn_entity ex_ecs0 [ex_c16, ex_c4] []))"
  have inv: "ecs_inv ?s"
    by (rule spawn_entity_keeps_invariant_helper [OF ex_ecs0_inv ex_spawn_hyps(5) ex_spawn_hyps(1-4)])
  have h: "is_valid_entity ?s 0" "ex_c4 \<in> set (map td_type (registered_components ?s))" by code_simp+
  from get_entity_comp_correct [OF inv h] have "isl (get_entity_comp ?s 0 ex_c4) = False"
    by (auto split: if_splits)
  moreover have "get_entity_comp ?s 0 ex_c4 = Inr (Some (Live 6))" by code_simp
  ultimately show ?thesis by simp
qed

text \<open>Claim C8: DestroyEntity on a well-formed subsystem and a valid entity
  never faults: it destroys the entity's components and clears its column,
  frees its index and no other, and keeps the subsystem well-formed.\<close>

theorem destroy_entity_correct:
  assumes "ecs_inv s" and "is_valid_entity s e"
  shows "\<exists>s' r. entity_records s ! nat e = Some r \<and> destroy_entity s e = Inr s' \<and> ecs_inv s' \<and>
           \<not> is_valid_entity s' e \<and>
           (\<forall>j. j \<noteq> e \<longrightarrow> sparse_get (entity_records s') j = sparse_get (entity_records s) j) \<and>
           \<not> live_bit (registered_archetypes s' ! nat (er_archetype r)) (nat (er_column r))"
proof -
  obtain s' r where D: "entity_records s ! nat e = Some r" "destroy_entity s e = Inr s'" "ecs_inv s'"
      "entity_records s' = (entity_records s)[nat e := None]"
      "\<not> live_bit (registered_archetypes s' ! nat (er_archetype r)) (nat (er_column r))"
    using destroy_entity_spec [OF assms] by blast
  have "sparse_remove_at e (entity_records s) = Inr (entity_records s')"
    using assms(2) D(4) by (simp add: sparse_remove_at_def is_valid_entity_def)
  from remove_at_result [OF this] D show ?thesis by (auto simp: is_valid_entity_def)
qed

theorem destroy_entity_correct_witness:
  "isl (destroy_entity (fst (projr (spawn_entity ex_ecs0 [ex_c16, ex_c4] []))) 0) = False \<and>
   \<not> is_valid_entity (projr (destroy_entity (fst (projr (spawn_entity ex_ecs0 [ex_c16, ex_c4] []))) 0)) 0"
proof -
  let ?s = "fst (projr (spawn_entity ex_ecs0 [ex_c16, ex_c4] []))"
  have inv: "ecs_inv ?s"
    by (rule spawn_entity_keeps_invariant_helper [OF ex_ecs0_inv ex_spawn_hyps(5) ex_spawn_hyps(1-4)])
  have v: "is_valid_entity ?s 0" by code_simp
  from destroy_entity_correct [OF inv v] show ?thesis by auto
qed

text \<open>Entity ids are reused: after destroying entity e of a
  well-formed subsystem whose ids below e are all in use, the next spawn
  returns e again.\<close>

theorem destroy_then_spawn_reuses_id:
  assumes inv: "ecs_inv s" and v: "is_valid_entity s e" and below: "\<forall>j. 0 \<le> j \<and> j < e \<longrightarrow> is_valid_entity s j"
    and d: "destroy_entity s e = Inr s'" and sp: "spawn_entity s' comps tags = Inr (s'', e')"
    and ne: "comps \<noteq> []" and dist: "distinct comps"
    and rc: "set comps \<subseteq> set (map td_type (registered_components s))"
    and rt: "set tags \<subseteq> set (map td_type (registered_tags s))"
  shows "e' = e"
proof -
  obtain s1 r where D: "destroy_entity s e = Inr s1" "ecs_inv s1"
      "entity_records s1 = (entity_records s)[nat e := None]"
      "registered_components s1 = registered_components s" "registered_tags s1 = registered_tags s"
    using destroy_entity_spec [OF inv v] by blast
  have s1: "s1 = s'" using D(1) d by simp
  have "e' = int (lowest_free (entity_records s'))"
    using spawn_entity_spec [of s' comps tags s'' e'] D s1 sp ne dist rc rt by simp
  moreover have ev: "0 \<le> e" "nat e < length (entity_records s)" using v by (auto simp: is_valid_entity_def sparse_is_valid_index_def)
  moreover have "\<forall>j < nat e. entity_records s ! j \<noteq> None"
    using below ev by (auto simp: is_valid_entity_def sparse_is_valid_index_def)
      (metis int_nat_eq less_nat_zero_code nat_int nat_less_iff of_nat_0_le_iff)
  ultimately show ?thesis using D(3) s1 by (simp add: lowest_free_remove)
qed

theorem destroy_then_spawn_reuses_id_witness:
  "spawn_entity (projr (destroy_entity (fst (projr (spawn_entity ex_ecs0 [ex_c16, ex_c4] []))) 0)) [ex_c4] [] =
   Inr (fst (projr (spawn_entity (projr (destroy_entity (fst (projr (spawn_entity ex_ecs0 [ex_c16, ex_c4] []))) 0)) [ex_c4] [])), 0)"
proof -
  let ?s = "fst (projr (spawn_entity ex_ecs0 [ex_c16, ex_c4] []))"
  let ?d = "projr (destroy_entity ?s 0)"
  let ?p = "spawn_entity ?d [ex_c4] []"
  have inv: "ecs_inv ?s"
    by (rule spawn_entity_keeps_invariant_helper [OF ex_ecs0_inv ex_spawn_hyps(5) ex_spawn_hyps(1-4)])
  have b: "\<forall>j. 0 \<le> j \<and> j < (0::int) \<longrightarrow> is_valid_entity ?s j"
  proof (intro allI impI)
    fix j :: int assume "0 \<le> j \<and> j < 0"
    then show "is_valid_entity ?s j" by linarith
  qed
  have h: "is_valid_entity ?s 0"
    "destroy_entity ?s 0 = Inr ?d" "?p = Inr (fst (projr ?p), snd (projr ?p))"
    "[ex_c4] \<noteq> []" "distinct [ex_c4]" "set [ex_c4] \<subseteq> set (map td_type (registered_components ?s))"
    "set ([] :: nat script_struct list) \<subseteq> set (map td_type (registered_tags ?s))"
    by code_simp+
  have "snd (projr ?p) = 0" by (rule destroy_then_spawn_reuses_id [OF inv h(1) b h(2-7)])
  with h(3) show ?thesis by simp
qed

end
