(* ===== verification/CompQuery.thy ===== *)
theory CompQuery
  imports SubsystemInvariant
begin

text \<open>\<open>TCompQuery\<close> of \<open>Types/CompQuery.h\<close>: a query over a list of read and
  write component types and a list of tag types.  \<open>ForEach\<close> finds (or
  creates) the archetype of the query signature, walks every registered
  archetype whose signature contains the query's (\<open>HasSameSetIdentifierFlags\<close>),
  and calls the functor on every live column with the query's components read
  by \<open>InternalGetComp\<close>.  The functor is modelled as a fold over the argument
  lists it receives; writes through the references it is given are not
  modelled.  The theory also proves that \<open>InternalFindArchetypeID\<close> and
  \<open>InternalSpawnEntity\<close> cannot fault on a well-formed subsystem.\<close>

section \<open>Operations\<close>

text \<open>\<open>GetArchetype(ID)\<close>: \<open>check(RegisteredArchetypes.IsValidIndex(ID))\<close>.\<close>

definition get_archetype :: "'v ecs_state \<Rightarrow> int \<Rightarrow> 'v archetype checked" where
  "get_archetype s aid =
     (if valid_archetype_id s aid then Inr (registered_archetypes s ! nat aid) else Inl InvalidArchetype)"

text \<open>\<open>ForEachInitializedColumn\<close>: every column below \<open>NumColumns\<close> whose
  initialized bit is set, in increasing order.\<close>

definition for_each_initialized_column ::
  "'v archetype \<Rightarrow> (int \<Rightarrow> 'b \<Rightarrow> 'b checked) \<Rightarrow> 'b \<Rightarrow> 'b checked" where
  "for_each_initialized_column a f b =
     fold_checked (\<lambda>i acc. case is_column_initialized a (int i) of
                             Inl e \<Rightarrow> Inl e
                           | Inr False \<Rightarrow> Inr acc
                           | Inr True \<Rightarrow> f (int i) acc)
       [0..<num_columns a] b"

text \<open>\<open>InternalGetComp<T>(Archetype, ColumnIndex)\<close>: the row of \<open>T\<close> by
  \<open>GetCompRow(GetCompTypeID<T>())\<close>, \<open>Archetype[Row]\<close> (\<open>check(IsValidRow)\<close>)
  and \<open>Row[Column]\<close> (\<open>check(Memory)\<close>, then pointer arithmetic: a column
  outside the buffer is undefined and modelled as a fault).  The slot is cast
  to \<open>T&\<close> unchecked.\<close>

definition internal_get_comp ::
  "'v ecs_state \<Rightarrow> 'v archetype \<Rightarrow> int \<Rightarrow> 'v script_struct \<Rightarrow> 'v cell checked" where
  "internal_get_comp s a c t =
     (case get_comp_type_id s t of
        Inl e \<Rightarrow> Inl e
      | Inr cid \<Rightarrow>
        (case get_comp_row a cid of
           Inl e \<Rightarrow> Inl e
         | Inr row \<Rightarrow>
           if \<not> is_valid_row a row then Inl InvalidRow
           else (case row_mem (rows a ! nat row) of
                   None \<Rightarrow> Inl BadPointer
                 | Some cs \<Rightarrow> if 0 \<le> c \<and> nat c < length cs then Inr (cs ! nat c) else Inl OutOfBounds)))"

text \<open>One call of the functor of \<open>ForEach\<close> at a column: the references of
  every read and write type, in the order of the template arguments.\<close>

definition query_call ::
  "'v ecs_state \<Rightarrow> 'v script_struct list \<Rightarrow> ('b \<Rightarrow> 'v cell list \<Rightarrow> 'b) \<Rightarrow> 'v archetype \<Rightarrow> int \<Rightarrow> 'b \<Rightarrow> 'b checked" where
  "query_call s ts f a c acc =
     (case map_checked (internal_get_comp s a c) ts of Inl e \<Rightarrow> Inl e | Inr args \<Rightarrow> Inr (f acc args))"

text \<open>\<open>ForEach(Functor)\<close>.  The \<open>static_assert\<close> that the query names a
  component is a guard here.  \<open>GetArchetypeID\<close> is a const method of the
  subsystem whose archetype array is \<open>mutable\<close>, so the query may register
  a new archetype: the subsystem after the query is part of the result.\<close>

definition query_for_each ::
  "'v ecs_state \<Rightarrow> 'v script_struct list \<Rightarrow> 'v script_struct list \<Rightarrow> 'v script_struct list \<Rightarrow>
   ('b \<Rightarrow> 'v cell list \<Rightarrow> 'b) \<Rightarrow> 'b \<Rightarrow> ('v ecs_state \<times> 'b) checked" where
  "query_for_each s reads writes tags f b =
     (if reads @ writes = [] then Inl BadCount
      else case internal_find_archetype_id s (reads @ writes) tags of
        Inl e \<Rightarrow> Inl e
      | Inr (s1, aid) \<Rightarrow>
        (case get_archetype s1 aid of
           Inl e \<Rightarrow> Inl e
         | Inr qa \<Rightarrow>
           (case fold_checked
                   (\<lambda>a acc. if \<not> has_same_set_identifier_flags qa a (num_comps_and_tags s1) then Inr acc
                            else for_each_initialized_column a (query_call s1 (reads @ writes) f a) acc)
                   (registered_archetypes s1) b of
              Inl e \<Rightarrow> Inl e
            | Inr b' \<Rightarrow> Inr (s1, b'))))"

section \<open>Fixtures\<close>

text \<open>The registered subsystem of \<open>ECSSubsystem\<close> after one spawn of its
  two-component signature.\<close>

definition ex_spawned :: "nat ecs_state" where
  "ex_spawned = fst (projr (spawn_entity ex_ecs0 [ex_c16, ex_c4] []))"

section \<open>Lemmas\<close>

text \<open>Progress of \<open>InternalFindArchetypeID\<close>: each of its loops succeeds when
  every step does.\<close>

lemma map_checked_ex: "(\<forall>x\<in>set xs. \<exists>y. f x = Inr y) \<Longrightarrow> \<exists>ys. map_checked f xs = Inr ys"
  by (induction xs) auto

lemma fold_checked_tbitarray_ex:
  "(\<forall>i\<in>set is. 0 \<le> i \<and> nat i < n) \<Longrightarrow> \<exists>ws'. fold_checked (tbitarray_set n) is ws = Inr ws'"
  by (induction "is" arbitrary: ws) (auto simp: tbitarray_set_def)

lemma fold_checked_register_ref_ex:
  "(\<forall>i\<in>set is. 0 \<le> i \<and> nat i < length ds) \<Longrightarrow> \<exists>ds'. fold_checked (register_ref nid ty) is ds = Inr ds'"
  by (induction "is" arbitrary: ds) (auto simp: register_ref_def Let_def)

lemma comp_ids_exist:
  assumes inv: "ecs_inv s" and rc: "set comps \<subseteq> set (map td_type (registered_components s))"
  shows "\<exists>cids. map_checked (get_comp_type_id s) comps = Inr cids"
proof (rule map_checked_ex, intro ballI)
  fix t assume t: "t \<in> set comps"
  have ch: "is_child_of t (ecs_comp_base s)" using inv rc t by (auto simp: ecs_inv_def list_all_iff)
  have so: "sorted_wrt (\<lambda>x y. size_uid_key x < size_uid_key y) (map td_type (registered_components s))"
    using inv by (simp add: ecs_inv_def)
  show "\<exists>c. get_comp_type_id s t = Inr c"
    using find_comp_type_id_registered [OF so _ ch] rc t by (auto simp: get_comp_type_id_def)
qed

lemma tag_ids_exist:
  assumes inv: "ecs_inv s" and rt: "set tags \<subseteq> set (map td_type (registered_tags s))"
  shows "\<exists>tids. map_checked (get_tag_type_id s) tags = Inr tids"
proof (rule map_checked_ex, intro ballI)
  fix t assume t: "t \<in> set tags"
  have ch: "is_child_of t (ecs_tag_base s)" using inv rt t by (auto simp: ecs_inv_def list_all_iff)
  have so: "sorted_wrt (\<lambda>x y. ss_uid x < ss_uid y) (map td_type (registered_tags s))"
    using inv by (simp add: ecs_inv_def)
  show "\<exists>c. get_tag_type_id s t = Inr c"
    using find_tag_type_id_registered [OF so _ ch] rt t by (auto simp: get_tag_type_id_def)
qed

text \<open>\<open>InternalFindArchetypeID\<close> never faults on a well-formed subsystem for
  registered types, and returns a valid archetype id.\<close>

lemma internal_find_archetype_id_total:
  assumes inv: "ecs_inv s"
    and rc: "set comps \<subseteq> set (map td_type (registered_components s))"
    and rt: "set tags \<subseteq> set (map td_type (registered_tags s))"
  shows "\<exists>s1 aid. internal_find_archetype_id s comps tags = Inr (s1, aid) \<and> valid_archetype_id s1 aid"
proof -
  obtain cids where c: "map_checked (get_comp_type_id s) comps = Inr cids" using comp_ids_exist [OF inv rc] by blast
  obtain tids where t: "map_checked (get_tag_type_id s) tags = Inr tids" using tag_ids_exist [OF inv rt] by blast
  have cr: "\<forall>i\<in>set cids. 0 \<le> i \<and> nat i < length (registered_components s)"
    using comp_ids_registered [OF inv rc c] by (auto simp: list_all2_conv_all_nth in_set_conv_nth)
  have tr: "\<forall>i\<in>set tids. 0 \<le> i \<and> nat i < length (registered_tags s)"
    using tag_ids_registered [OF inv rt t] .
  have "\<forall>i\<in>set (cids @ map (\<lambda>t. t + int (length (registered_components s))) tids). 0 \<le> i \<and> nat i < num_comps_and_tags s"
    using cr tr by (fastforce simp: num_comps_and_tags_def nat_add_distrib)
  then obtain sig where sg: "signature_mask s cids tids = Inr sig"
    unfolding signature_mask_def using fold_checked_tbitarray_ex by blast
  show ?thesis
  proof (cases "index_of_by_predicate (archetype_matches sig) (registered_archetypes s) = INDEX_NONE")
    case False
    then show ?thesis
      using internal_find_archetype_id_found [OF c t sg refl False] index_of_by_predicate_Some [OF False]
      by (auto simp: valid_archetype_id_def)
  next
    case True
    let ?s1 = "s\<lparr>registered_archetypes := registered_archetypes s @
                 [arch_new sig (num_comps_and_tags s) (sort_key size_uid_key comps)]\<rparr>"
    let ?nid = "int (length (registered_archetypes s))"
    obtain cds where cd: "fold_checked (register_ref ?nid (sort_key size_uid_key comps)) cids (registered_components ?s1) = Inr cds"
      using fold_checked_register_ref_ex [of cids "registered_components ?s1" ?nid "sort_key size_uid_key comps"] cr by auto
    obtain tds where td: "fold_checked (register_ref ?nid (sort_key ss_uid tags)) tids (registered_tags ?s1) = Inr tds"
      using fold_checked_register_ref_ex [of tids "registered_tags ?s1" ?nid "sort_key ss_uid tags"] tr by auto
    have "internal_find_archetype_id s comps tags = Inr (?s1\<lparr>registered_components := cds, registered_tags := tds\<rparr>, ?nid)"
      using c t sg True cd td by (simp add: internal_find_archetype_id_def Let_def)
    then show ?thesis by (auto simp: valid_archetype_id_def)
  qed
qed

text \<open>A loop whose every step appends to its accumulator appends the
  concatenation.\<close>

lemma fold_checked_concat:
  "(\<And>x acc. x \<in> set xs \<Longrightarrow> h x acc = Inr (acc @ k x)) \<Longrightarrow>
   fold_checked h xs acc = Inr (acc @ concat (map k xs))"
  by (induction xs arbitrary: acc) auto

lemma fold_checked_cong:
  "(\<And>x acc. x \<in> set xs \<Longrightarrow> f x acc = g x acc) \<Longrightarrow> fold_checked f xs b = fold_checked g xs b"
  by (induction xs arbitrary: b) (auto split: sum.splits)

lemma fold_checked_filter:
  "fold_checked (\<lambda>i acc. if P i then f i acc else Inr acc) xs b = fold_checked f (filter P xs) b"
  by (induction xs arbitrary: b) (auto split: sum.splits)

lemma for_each_initialized_column_live:
  assumes "arch_inv a"
  shows "for_each_initialized_column a f b =
    fold_checked (\<lambda>i. f (int i)) (filter (live_bit a) [0..<num_columns a]) b"
proof -
  have "for_each_initialized_column a f b =
    fold_checked (\<lambda>i acc. if live_bit a i then f (int i) acc else Inr acc) [0..<num_columns a] b"
    unfolding for_each_initialized_column_def
  proof (rule fold_checked_cong)
    fix i acc assume "i \<in> set [0..<num_columns a]"
    with assms show "(case is_column_initialized a (int i) of Inl e \<Rightarrow> Inl e | Inr False \<Rightarrow> Inr acc
        | Inr True \<Rightarrow> f (int i) acc) = (if live_bit a i then f (int i) acc else Inr acc)"
      by (auto simp: is_column_initialized_def is_valid_column_def live_bit_def arch_inv_def
               split: option.splits)
  qed
  then show ?thesis by (simp add: fold_checked_filter)
qed

lemma comp_type_id_of_registered:
  assumes inv: "ecs_inv s" and tr: "t \<in> set (map td_type (registered_components s))"
  shows "\<exists>i < length (registered_components s). get_comp_type_id s t = Inr (int i) \<and>
           td_type (registered_components s ! i) = t"
proof -
  have ch: "is_child_of t (ecs_comp_base s)" using inv tr by (auto simp: ecs_inv_def list_all_iff)
  have so: "sorted_wrt (\<lambda>x y. size_uid_key x < size_uid_key y) (map td_type (registered_components s))"
    using inv by (simp add: ecs_inv_def)
  show ?thesis using find_comp_type_id_registered [OF so tr ch] by (simp add: get_comp_type_id_def)
qed

lemma ecs_inv_arch_ok:
  "ecs_inv s \<Longrightarrow> a \<in> set (registered_archetypes s) \<Longrightarrow> arch_ok s a"
  by (simp add: ecs_inv_def list_all_iff)

lemma live_row_cell:
  "arch_inv a \<Longrightarrow> k < num_rows a \<Longrightarrow> c < num_columns a \<Longrightarrow> live_bit a c \<Longrightarrow> is_live (row_cell (rows a ! k) c)"
  by (auto simp: arch_inv_def list_all_iff)

text \<open>\<open>InternalGetComp\<close> on an archetype that has the component reads the
  column's slot in the row of that type.\<close>

lemma internal_get_comp_row:
  assumes inv: "ecs_inv s" and a: "a \<in> set (registered_archetypes s)"
    and gi: "get_comp_type_id s t = Inr (int i)" and il: "i < length (registered_components s)"
    and ty: "td_type (registered_components s ! i) = t"
    and b: "bm_get (comp_mask a) i" and c: "c < num_columns a"
  shows "\<exists>k < num_rows a. row_type (rows a ! k) = t \<and> get_comp_row a (int i) = Inr (int k) \<and>
           internal_get_comp s a (int c) t = Inr (row_cell (rows a ! k) c)"
proof -
  have ok: "arch_inv a" "arch_rows_match (map td_type (registered_components s)) a"
    using ecs_inv_arch_ok [OF inv a] by (simp_all add: arch_ok_def)
  obtain k where k: "get_comp_row a (int i) = Inr (int k)" "k < num_rows a"
      "row_type (rows a ! k) = map td_type (registered_components s) ! i"
    using get_comp_row_type [OF ok, of i] il b by auto
  have "row_ok (num_columns a) (rows a ! k)" using ok(1) k(2) by (simp add: arch_inv_def list_all_iff)
  then obtain cs where cs: "row_mem (rows a ! k) = Some cs" "length cs = num_columns a"
    using c by (auto simp: row_ok_def split: option.splits)
  have "internal_get_comp s a (int c) t = Inr (row_cell (rows a ! k) c)"
    using gi k cs c by (simp add: internal_get_comp_def is_valid_row_def row_cell_def)
  with k il ty show ?thesis by auto
qed


lemma get_comp_type_id_same_types:
  assumes inv: "ecs_inv s" and inv1: "ecs_inv s1"
    and ty: "map td_type (registered_components s1) = map td_type (registered_components s)"
    and tr: "t \<in> set (map td_type (registered_components s))"
  shows "get_comp_type_id s1 t = get_comp_type_id s t"
proof -
  obtain i where i: "i < length (registered_components s)" "get_comp_type_id s t = Inr (int i)"
      "td_type (registered_components s ! i) = t"
    using comp_type_id_of_registered [OF inv tr] by blast
  obtain j where j: "j < length (registered_components s1)" "get_comp_type_id s1 t = Inr (int j)"
      "td_type (registered_components s1 ! j) = t"
    using comp_type_id_of_registered [OF inv1] tr ty by auto
  have "sorted_wrt (\<lambda>x y. size_uid_key x < size_uid_key y) (map td_type (registered_components s))"
    using inv by (simp add: ecs_inv_def)
  then have "distinct (map size_uid_key (map td_type (registered_components s)))"
    by (simp add: sorted_wrt_map [symmetric] strict_sorted_iff comp_def)
  then have d: "distinct (map td_type (registered_components s))" by (metis distinct_map)
  have l: "length (registered_components s1) = length (registered_components s)"
    using arg_cong [OF ty, of length] by simp
  have "map td_type (registered_components s) ! j = map td_type (registered_components s) ! i"
    using i j ty l by (metis nth_map)
  then have "i = j" using nth_eq_iff_index_eq [OF d, of j i] i(1) j(1) l by simp
  with i j show ?thesis by simp
qed

lemma bit_below_words: "i < n \<Longrightarrow> i < 64 * div_round_up n 64"
  using div_round_up_64_less [of i n] by (simp add: div_less_iff_less_mult mult.commute)

text \<open>The arguments of one functor call, read from an archetype that has
  every queried component: one slot per type, from the row of that type.\<close>

lemma query_args_rows:
  assumes inv: "ecs_inv s" and a: "a \<in> set (registered_archetypes s)"
    and rc: "set ts \<subseteq> set (map td_type (registered_components s))"
    and bits: "\<forall>t \<in> set ts. \<forall>i. get_comp_type_id s t = Inr (int i) \<longrightarrow> bm_get (comp_mask a) i"
    and c: "c < num_columns a"
  shows "\<exists>args. map_checked (internal_get_comp s a (int c)) ts = Inr args \<and>
    list_all2 (\<lambda>t x. \<exists>k < num_rows a. row_type (rows a ! k) = t \<and>
       get_comp_row a (projr (get_comp_type_id s t)) = Inr (int k) \<and> x = row_cell (rows a ! k) c) ts args"
  using rc bits
proof (induction ts)
  case Nil
  then show ?case by simp
next
  case (Cons t ts)
  obtain i where i: "i < length (registered_components s)" "get_comp_type_id s t = Inr (int i)"
      "td_type (registered_components s ! i) = t"
    using comp_type_id_of_registered [OF inv] Cons.prems(1) by auto
  obtain k where k: "k < num_rows a" "row_type (rows a ! k) = t" "get_comp_row a (int i) = Inr (int k)"
      "internal_get_comp s a (int c) t = Inr (row_cell (rows a ! k) c)"
    using internal_get_comp_row [OF inv a i(2,1,3) _ c] Cons.prems(2) i(2) by auto
  obtain args where "map_checked (internal_get_comp s a (int c)) ts = Inr args"
      "list_all2 (\<lambda>t x. \<exists>k < num_rows a. row_type (rows a ! k) = t \<and>
         get_comp_row a (projr (get_comp_type_id s t)) = Inr (int k) \<and> x = row_cell (rows a ! k) c) ts args"
    using Cons by auto
  with k i(2) show ?case by auto
qed


text \<open>The archetype loop of \<open>ForEach\<close> with a functor that records its
  arguments: the calls are those of the live columns of every selected
  archetype, archetype by archetype, column by column.\<close>

lemma query_loop_trace:
  assumes inv: "ecs_inv s" and rc: "set ts \<subseteq> set (map td_type (registered_components s))"
    and bits: "\<forall>a \<in> set (registered_archetypes s). P a \<longrightarrow>
       (\<forall>t \<in> set ts. \<forall>i. get_comp_type_id s t = Inr (int i) \<longrightarrow> bm_get (comp_mask a) i)"
  shows "fold_checked (\<lambda>a acc. if \<not> P a then Inr acc
            else for_each_initialized_column a (query_call s ts (\<lambda>acc x. acc @ [x]) a) acc)
          (registered_archetypes s) acc =
    Inr (acc @ concat (map (\<lambda>a. if P a then map (\<lambda>c. projr (map_checked (internal_get_comp s a (int c)) ts))
                                               (filter (live_bit a) [0..<num_columns a]) else [])
                         (registered_archetypes s)))"
proof (rule fold_checked_concat)
  fix a acc assume a: "a \<in> set (registered_archetypes s)"
  show "(if \<not> P a then Inr acc else for_each_initialized_column a (query_call s ts (\<lambda>acc x. acc @ [x]) a) acc) =
    Inr (acc @ (if P a then map (\<lambda>c. projr (map_checked (internal_get_comp s a (int c)) ts))
                              (filter (live_bit a) [0..<num_columns a]) else []))"
  proof (cases "P a")
    case True
    have ai: "arch_inv a" using ecs_inv_arch_ok [OF inv a] by (simp add: arch_ok_def)
    have "fold_checked (\<lambda>i. query_call s ts (\<lambda>acc x. acc @ [x]) a (int i)) (filter (live_bit a) [0..<num_columns a]) acc =
      Inr (acc @ concat (map (\<lambda>c. [projr (map_checked (internal_get_comp s a (int c)) ts)])
                          (filter (live_bit a) [0..<num_columns a])))"
    proof (rule fold_checked_concat)
      fix c acc assume "c \<in> set (filter (live_bit a) [0..<num_columns a])"
      then have "c < num_columns a" by simp
      then obtain args where "map_checked (internal_get_comp s a (int c)) ts = Inr args"
        using query_args_rows [OF inv a rc] bits a True by blast
      then show "query_call s ts (\<lambda>acc x. acc @ [x]) a (int c) acc =
          Inr (acc @ [projr (map_checked (internal_get_comp s a (int c)) ts)])"
        by (simp add: query_call_def)
    qed
    then show ?thesis using True by (simp add: for_each_initialized_column_live [OF ai] map_concat)
  qed simp
qed


lemma sparse_get_record_ok:
  assumes inv: "ecs_inv s" and sg: "sparse_get (entity_records s) e = Inr r"
  shows "0 \<le> e \<and> nat e < length (entity_records s) \<and> entity_records s ! nat e = Some r \<and> record_ok s r"
proof -
  have e: "0 \<le> e" "nat e < length (entity_records s)" "entity_records s ! nat e = Some r"
    using sg by (auto simp: sparse_get_def sparse_is_valid_index_def split: if_splits option.splits)
  then show ?thesis using inv by (force simp: ecs_inv_def records_ok_def)
qed

text \<open>Every live entity of an archetype that has every queried component: the
  functor is called with that entity's components.\<close>

lemma query_args_entity:
  assumes inv: "ecs_inv s" and sg: "sparse_get (entity_records s) e = Inr r"
    and rc: "set ts \<subseteq> set (map td_type (registered_components s))"
    and bits: "\<forall>t \<in> set ts. \<forall>i. get_comp_type_id s t = Inr (int i) \<longrightarrow>
                 bm_get (comp_mask (registered_archetypes s ! nat (er_archetype r))) i"
  shows "map (get_entity_comp s e) ts =
    map (\<lambda>x. Inr (Some x)) (projr (map_checked (internal_get_comp s (registered_archetypes s ! nat (er_archetype r)) (er_column r)) ts))"
proof -
  let ?a = "registered_archetypes s ! nat (er_archetype r)"
  have e: "0 \<le> e" "nat e < length (entity_records s)" "entity_records s ! nat e = Some r"
    and rok: "record_ok s r"
    using sparse_get_record_ok [OF inv sg] by auto
  from rok have a: "?a \<in> set (registered_archetypes s)" and c: "nat (er_column r) < num_columns ?a"
      and c0: "0 \<le> er_column r"
    by (auto simp: record_ok_def valid_archetype_id_def)
  obtain args where m: "map_checked (internal_get_comp s ?a (int (nat (er_column r)))) ts = Inr args"
    and rel: "list_all2 (\<lambda>t x. \<exists>k < num_rows ?a. row_type (rows ?a ! k) = t \<and>
       get_comp_row ?a (projr (get_comp_type_id s t)) = Inr (int k) \<and> x = row_cell (rows ?a ! k) (nat (er_column r))) ts args"
    using query_args_rows [OF inv a rc bits c] by blast
  have "list_all2 (\<lambda>t x. get_entity_comp s e t = Inr (Some x)) ts args"
  proof (rule list.rel_mono_strong [OF rel])
    fix t x assume t: "t \<in> set ts"
      and tx: "\<exists>k < num_rows ?a. row_type (rows ?a ! k) = t \<and>
       get_comp_row ?a (projr (get_comp_type_id s t)) = Inr (int k) \<and> x = row_cell (rows ?a ! k) (nat (er_column r))"
    have tr: "t \<in> set (map td_type (registered_components s))" using rc t by blast
    obtain i where i: "get_comp_type_id s t = Inr (int i)"
      "bm_get (comp_mask ?a) i \<longrightarrow> (\<exists>k. get_entity_comp s e t = Inr (Some (row_cell (rows ?a ! k) (nat (er_column r)))) \<and>
          get_comp_row ?a (int i) = Inr (int k))"
      using get_entity_comp_reads [OF inv e tr] by (auto split: if_splits)
    show "get_entity_comp s e t = Inr (Some x)" using i tx bits t by fastforce
  qed
  then show ?thesis using m c0 by (simp add: list_all2_conv_all_nth list_eq_iff_nth_eq)
qed


text \<open>The archetypes \<open>ForEach\<close> selects have every queried component.\<close>

lemma query_selected_has_comps:
  assumes inv: "ecs_inv s" and f: "internal_find_archetype_id s ts tags = Inr (s1, aid)" and inv1: "ecs_inv s1"
    and rc: "set ts \<subseteq> set (map td_type (registered_components s))"
    and rt: "set tags \<subseteq> set (map td_type (registered_tags s))"
    and small: "num_comps_and_tags s \<le> 8"
    and m: "has_same_set_identifier_flags (registered_archetypes s1 ! nat aid) a (num_comps_and_tags s1)"
  shows "\<forall>t \<in> set ts. \<forall>i. get_comp_type_id s1 t = Inr (int i) \<longrightarrow> bm_get (comp_mask a) i"
proof (intro ballI allI impI)
  fix t i assume t: "t \<in> set ts" and gi1: "get_comp_type_id s1 t = Inr (int i)"
  note keep = internal_find_archetype_id_keeps [OF f]
  have n1: "num_comps_and_tags s1 = num_comps_and_tags s"
    using arg_cong [OF conjunct1 [OF keep], of length] arg_cong [OF conjunct1 [OF conjunct2 [OF keep]], of length]
    by (simp add: num_comps_and_tags_def)
  have tr: "t \<in> set (map td_type (registered_components s))" using rc t by blast
  have gi: "get_comp_type_id s t = Inr (int i)"
    using gi1 get_comp_type_id_same_types [OF inv inv1 _ tr] keep by simp
  obtain j where j: "j < length (registered_components s)" "get_comp_type_id s t = Inr (int j)"
    using comp_type_id_of_registered [OF inv tr] by blast
  have il: "i < length (registered_components s)" using j gi by simp
  have qb: "bm_get (comp_mask (registered_archetypes s1 ! nat aid)) i"
    using find_archetype_has_comp_bits [OF inv f small rt t gi il] .
  have "i < 64 * div_round_up (num_comps_and_tags s1) 64"
    using il n1 bit_below_words [of i "num_comps_and_tags s"] by (simp add: num_comps_and_tags_def)
  with m qb show "bm_get (comp_mask a) i"
    by (simp add: has_same_set_identifier_flags_def words_subset_iff)
qed

text \<open>\<open>ForEach\<close> with a recording functor, on a well-formed subsystem and a
  query of distinct registered types with at most eight signature bits: it
  registers (or finds) the query archetype, keeps the invariant, and calls the
  functor on the live columns of every archetype whose signature contains the
  query archetype's.\<close>

lemma query_for_each_trace:
  assumes inv: "ecs_inv s" and ne: "reads @ writes \<noteq> []" and dist: "distinct (reads @ writes)"
    and rc: "set (reads @ writes) \<subseteq> set (map td_type (registered_components s))"
    and rt: "set tags \<subseteq> set (map td_type (registered_tags s))"
    and small: "num_comps_and_tags s \<le> 8"
  shows "\<exists>s1 aid. internal_find_archetype_id s (reads @ writes) tags = Inr (s1, aid) \<and>
    valid_archetype_id s1 aid \<and> ecs_inv s1 \<and>
    query_for_each s reads writes tags (\<lambda>acc x. acc @ [x]) [] =
      Inr (s1, concat (map (\<lambda>a. if has_same_set_identifier_flags (registered_archetypes s1 ! nat aid) a (num_comps_and_tags s1)
                                then map (\<lambda>c. projr (map_checked (internal_get_comp s1 a (int c)) (reads @ writes)))
                                       (filter (live_bit a) [0..<num_columns a]) else [])
                          (registered_archetypes s1)))"
proof -
  let ?ts = "reads @ writes"
  obtain s1 aid where f: "internal_find_archetype_id s ?ts tags = Inr (s1, aid)" and v: "valid_archetype_id s1 aid"
    using internal_find_archetype_id_total [OF inv rc rt] by blast
  have inv1: "ecs_inv s1" using internal_find_archetype_id_inv [OF inv f ne dist rc rt] .
  note keep = internal_find_archetype_id_keeps [OF f]
  let ?qa = "registered_archetypes s1 ! nat aid"
  have rc1: "set ?ts \<subseteq> set (map td_type (registered_components s1))" using rc keep by simp
  have bits: "\<forall>a \<in> set (registered_archetypes s1). has_same_set_identifier_flags ?qa a (num_comps_and_tags s1) \<longrightarrow>
       (\<forall>t \<in> set ?ts. \<forall>i. get_comp_type_id s1 t = Inr (int i) \<longrightarrow> bm_get (comp_mask a) i)"
    using query_selected_has_comps [OF inv f inv1 rc rt small] by blast
  have "query_for_each s reads writes tags (\<lambda>acc x. acc @ [x]) [] =
      Inr (s1, concat (map (\<lambda>a. if has_same_set_identifier_flags ?qa a (num_comps_and_tags s1)
                                then map (\<lambda>c. projr (map_checked (internal_get_comp s1 a (int c)) ?ts))
                                       (filter (live_bit a) [0..<num_columns a]) else [])
                          (registered_archetypes s1)))"
    using ne f v query_loop_trace [OF inv1 rc1 bits, of "[]"]
    by (simp add: query_for_each_def get_archetype_def)
  with f v inv1 show ?thesis by blast
qed



lemma ex_spawned_inv: "ecs_inv ex_spawned"
  unfolding ex_spawned_def
  by (rule spawn_entity_keeps_invariant_helper [OF ex_ecs0_inv ex_spawn_hyps(5) ex_spawn_hyps(1-4)])

lemma ex_query_hyps:
  "[ex_c4] @ [] \<noteq> []" "distinct ([ex_c4] @ [])"
  "set ([ex_c4] @ []) \<subseteq> set (map td_type (registered_components ex_spawned))"
  "set ([] :: nat script_struct list) \<subseteq> set (map td_type (registered_tags ex_spawned))"
  "num_comps_and_tags ex_spawned \<le> 8"
  by (simp_all add: ex_spawned_def) code_simp+

section \<open>Properties\<close>

text \<open>Claim C2: InternalSpawnEntity always succeeds on a well-formed subsystem
  for a signature of distinct registered types with at least one component:
  finding or creating the archetype, adding a column and emplacing the entity
  record never fault.\<close>

theorem spawn_entity_progress:
  assumes inv: "ecs_inv s" and ne: "comps \<noteq> []" and dist: "distinct comps"
    and rc: "set comps \<subseteq> set (map td_type (registered_components s))"
    and rt: "set tags \<subseteq> set (map td_type (registered_tags s))"
  shows "\<exists>s' e. spawn_entity s comps tags = Inr (s', e)"
proof -
  obtain s1 aid where f: "internal_find_archetype_id s comps tags = Inr (s1, aid)"
    and v: "valid_archetype_id s1 aid"
    using internal_find_archetype_id_total [OF inv rc rt] by blast
  have "ecs_inv s1" using internal_find_archetype_id_inv [OF inv f ne dist rc rt] .
  then have ai: "arch_inv (registered_archetypes s1 ! nat aid)"
    using v by (auto simp: ecs_inv_def list_all_iff arch_ok_def valid_archetype_id_def)
  then obtain a1 col where
    "add_at_first_uninitialized None entity_alloc_chunk_size (registered_archetypes s1 ! nat aid) = Inr (a1, col)"
    using add_at_first_uninitialized_spec [OF ai, of entity_alloc_chunk_size None]
    unfolding entity_alloc_chunk_size_def by auto
  then show ?thesis using f v by (simp add: spawn_entity_def split: prod.splits)
qed

theorem spawn_entity_progress_witness:
  "ecs_inv ex_ecs0 \<and> (\<exists>s' e. spawn_entity ex_ecs0 [ex_c16, ex_c4] [] = Inr (s', e))"
  using spawn_entity_progress [OF ex_ecs0_inv ex_spawn_hyps(1-4)] ex_ecs0_inv by blast

text \<open>Claim C3: ForEach of a query of distinct registered component types
  (with at most eight signature bits) on a well-formed subsystem never faults,
  leaves the subsystem well-formed, and hands the functor, at every call, one
  live slot per queried type, taken from one live column of an archetype and
  from the row holding that type, so the unchecked cast to T is sound.\<close>

theorem query_for_each_safe:
  assumes "ecs_inv s" and "reads @ writes \<noteq> []" and "distinct (reads @ writes)"
    and "set (reads @ writes) \<subseteq> set (map td_type (registered_components s))"
    and "set tags \<subseteq> set (map td_type (registered_tags s))"
    and "num_comps_and_tags s \<le> 8"
  shows "\<exists>s1 calls. query_for_each s reads writes tags (\<lambda>acc x. acc @ [x]) [] = Inr (s1, calls) \<and> ecs_inv s1 \<and>
    (\<forall>args \<in> set calls. \<exists>a \<in> set (registered_archetypes s1). \<exists>c < num_columns a. live_bit a c \<and>
       list_all2 (\<lambda>t x. is_live x \<and> (\<exists>k < num_rows a. row_type (rows a ! k) = t \<and> x = row_cell (rows a ! k) c))
         (reads @ writes) args)"
proof -
  obtain s1 aid where f: "internal_find_archetype_id s (reads @ writes) tags = Inr (s1, aid)"
    and inv1: "ecs_inv s1"
    and q: "query_for_each s reads writes tags (\<lambda>acc x. acc @ [x]) [] =
      Inr (s1, concat (map (\<lambda>a. if has_same_set_identifier_flags (registered_archetypes s1 ! nat aid) a (num_comps_and_tags s1)
                                then map (\<lambda>c. projr (map_checked (internal_get_comp s1 a (int c)) (reads @ writes)))
                                       (filter (live_bit a) [0..<num_columns a]) else [])
                          (registered_archetypes s1)))"
    using query_for_each_trace [OF assms] by blast
  have rc1: "set (reads @ writes) \<subseteq> set (map td_type (registered_components s1))"
    using assms(4) internal_find_archetype_id_keeps [OF f] by simp
  have "\<exists>a \<in> set (registered_archetypes s1). \<exists>c < num_columns a. live_bit a c \<and>
       list_all2 (\<lambda>t x. is_live x \<and> (\<exists>k < num_rows a. row_type (rows a ! k) = t \<and> x = row_cell (rows a ! k) c))
         (reads @ writes) args"
    if mem: "args \<in> set (concat (map (\<lambda>a. if has_same_set_identifier_flags (registered_archetypes s1 ! nat aid) a (num_comps_and_tags s1)
                                then map (\<lambda>c. projr (map_checked (internal_get_comp s1 a (int c)) (reads @ writes)))
                                       (filter (live_bit a) [0..<num_columns a]) else [])
                          (registered_archetypes s1)))" for args
  proof -
    let ?P = "\<lambda>a. has_same_set_identifier_flags (registered_archetypes s1 ! nat aid) a (num_comps_and_tags s1)"
    obtain a where a: "a \<in> set (registered_archetypes s1)"
      and in_a: "args \<in> set (if ?P a then map (\<lambda>c. projr (map_checked (internal_get_comp s1 a (int c)) (reads @ writes)))
                                       (filter (live_bit a) [0..<num_columns a]) else [])"
      using mem unfolding set_concat set_map by blast
    then have m: "?P a" by (auto split: if_splits)
    obtain c where c: "c < num_columns a" "live_bit a c"
      and args: "args = projr (map_checked (internal_get_comp s1 a (int c)) (reads @ writes))"
      using in_a m by auto
    have ai: "arch_inv a" using ecs_inv_arch_ok [OF inv1 a] by (simp add: arch_ok_def)
    obtain xs where xs: "map_checked (internal_get_comp s1 a (int c)) (reads @ writes) = Inr xs"
      and rel: "list_all2 (\<lambda>t x. \<exists>k < num_rows a. row_type (rows a ! k) = t \<and>
         get_comp_row a (projr (get_comp_type_id s1 t)) = Inr (int k) \<and> x = row_cell (rows a ! k) c) (reads @ writes) xs"
      using query_args_rows [OF inv1 a rc1 query_selected_has_comps [OF assms(1) f inv1 assms(4,5,6) m] c(1)] by blast
    have "list_all2 (\<lambda>t x. is_live x \<and> (\<exists>k < num_rows a. row_type (rows a ! k) = t \<and> x = row_cell (rows a ! k) c))
         (reads @ writes) xs"
      by (rule list.rel_mono_strong [OF rel]) (auto intro: live_row_cell [OF ai _ c])
    with a c args xs show ?thesis by auto
  qed
  with q inv1 show ?thesis by blast
qed

theorem query_for_each_safe_witness:
  "\<exists>s1 calls. query_for_each ex_spawned [ex_c4] [] [] (\<lambda>acc x. acc @ [x]) [] = Inr (s1, calls) \<and> ecs_inv s1 \<and>
    (\<forall>args \<in> set calls. \<exists>a \<in> set (registered_archetypes s1). \<exists>c < num_columns a. live_bit a c \<and>
       list_all2 (\<lambda>t x. is_live x \<and> (\<exists>k < num_rows a. row_type (rows a ! k) = t \<and> x = row_cell (rows a ! k) c))
         ([ex_c4] @ []) args)"
  using query_for_each_safe [OF ex_spawned_inv ex_query_hyps] by simp


text \<open>Claim C4: ForEach is complete: on the same hypotheses, every entity of
  the subsystem whose archetype's signature contains the query archetype's is
  visited, with exactly the components GetEntityComp returns for it.\<close>

theorem query_for_each_complete:
  assumes "ecs_inv s" and "reads @ writes \<noteq> []" and "distinct (reads @ writes)"
    and "set (reads @ writes) \<subseteq> set (map td_type (registered_components s))"
    and "set tags \<subseteq> set (map td_type (registered_tags s))"
    and "num_comps_and_tags s \<le> 8"
  shows "\<exists>s1 aid calls. internal_find_archetype_id s (reads @ writes) tags = Inr (s1, aid) \<and>
    query_for_each s reads writes tags (\<lambda>acc x. acc @ [x]) [] = Inr (s1, calls) \<and>
    (\<forall>e r. sparse_get (entity_records s1) e = Inr r \<longrightarrow>
       has_same_set_identifier_flags (registered_archetypes s1 ! nat aid)
         (registered_archetypes s1 ! nat (er_archetype r)) (num_comps_and_tags s1) \<longrightarrow>
       (\<exists>args \<in> set calls. map (get_entity_comp s1 e) (reads @ writes) = map (\<lambda>x. Inr (Some x)) args))"
proof -
  let ?ts = "reads @ writes"
  obtain s1 aid where f: "internal_find_archetype_id s ?ts tags = Inr (s1, aid)"
    and inv1: "ecs_inv s1"
    and q: "query_for_each s reads writes tags (\<lambda>acc x. acc @ [x]) [] =
      Inr (s1, concat (map (\<lambda>a. if has_same_set_identifier_flags (registered_archetypes s1 ! nat aid) a (num_comps_and_tags s1)
                                then map (\<lambda>c. projr (map_checked (internal_get_comp s1 a (int c)) ?ts))
                                       (filter (live_bit a) [0..<num_columns a]) else [])
                          (registered_archetypes s1)))"
    using query_for_each_trace [OF assms] by blast
  have rc1: "set ?ts \<subseteq> set (map td_type (registered_components s1))"
    using assms(4) internal_find_archetype_id_keeps [OF f] by simp
  have "\<exists>args \<in> set (concat (map (\<lambda>a. if has_same_set_identifier_flags (registered_archetypes s1 ! nat aid) a (num_comps_and_tags s1)
                                then map (\<lambda>c. projr (map_checked (internal_get_comp s1 a (int c)) ?ts))
                                       (filter (live_bit a) [0..<num_columns a]) else [])
                          (registered_archetypes s1))).
          map (get_entity_comp s1 e) ?ts = map (\<lambda>x. Inr (Some x)) args"
    if sg: "sparse_get (entity_records s1) e = Inr r"
      and m: "has_same_set_identifier_flags (registered_archetypes s1 ! nat aid)
         (registered_archetypes s1 ! nat (er_archetype r)) (num_comps_and_tags s1)" for e r
  proof -
    let ?a = "registered_archetypes s1 ! nat (er_archetype r)"
    have rok: "record_ok s1 r" using sparse_get_record_ok [OF inv1 sg] by blast
    then have a: "?a \<in> set (registered_archetypes s1)" and c: "nat (er_column r) < num_columns ?a"
        "live_bit ?a (nat (er_column r))" and c0: "0 \<le> er_column r"
      by (auto simp: record_ok_def valid_archetype_id_def)
    have eq: "map (get_entity_comp s1 e) ?ts =
        map (\<lambda>x. Inr (Some x)) (projr (map_checked (internal_get_comp s1 ?a (er_column r)) ?ts))"
      using query_args_entity [OF inv1 sg rc1 query_selected_has_comps [OF assms(1) f inv1 assms(4,5,6) m]] .
    have "projr (map_checked (internal_get_comp s1 ?a (er_column r)) ?ts) \<in>
        set (map (\<lambda>c. projr (map_checked (internal_get_comp s1 ?a (int c)) ?ts)) (filter (live_bit ?a) [0..<num_columns ?a]))"
      using c c0 by (auto intro!: image_eqI [of _ _ "nat (er_column r)"])
    then show ?thesis using eq a m unfolding set_concat set_map by (auto intro!: bexI [of _ ?a])
  qed
  with f q show ?thesis by blast
qed

theorem query_for_each_complete_witness:
  "\<exists>s1 aid calls. internal_find_archetype_id ex_spawned ([ex_c4] @ []) [] = Inr (s1, aid) \<and>
    query_for_each ex_spawned [ex_c4] [] [] (\<lambda>acc x. acc @ [x]) [] = Inr (s1, calls) \<and>
    (\<forall>e r. sparse_get (entity_records s1) e = Inr r \<longrightarrow>
       has_same_set_identifier_flags (registered_archetypes s1 ! nat aid)
         (registered_archetypes s1 ! nat (er_archetype r)) (num_comps_and_tags s1) \<longrightarrow>
       (\<exists>args \<in> set calls. map (get_entity_comp s1 e) ([ex_c4] @ []) = map (\<lambda>x. Inr (Some x)) args))"
  using query_for_each_complete [OF ex_spawned_inv ex_query_hyps] .

text \<open>ForEach, a const method, registers the archetype of its
  signature when none matches: the query for one component on a subsystem whose
  only archetype has two adds an empty archetype, and visits the entity of the
  two-component archetype.\<close>

theorem query_registers_archetype:
  "(case query_for_each ex_spawned [ex_c4] [] [] (\<lambda>acc x. acc @ [x]) [] of
      Inl e \<Rightarrow> False
    | Inr (s2, calls) \<Rightarrow> length (registered_archetypes s2) = Suc (length (registered_archetypes ex_spawned)) \<and>
        num_columns (last (registered_archetypes s2)) = 0 \<and> length calls = 1)"
  by code_simp

end
