(* ===== verification/AnyStructArray.thy ===== *)
theory AnyStructArray
  imports ECS_Prelude
begin

text \<open>
  The type-erased array \<open>FAnyStructArray\<close> (\<open>Types/AnyStructArray.h\<close>): a
  buffer pointer \<open>Memory\<close>, the element type \<open>ScriptStruct\<close> and the count
  \<open>NumElems\<close>.  The buffer is a list of slots (\<open>ECS_Prelude\<close>), addressed in
  elements: every offset of the source is \<open>Index * GetStructureSize()\<close>, so
  the slot index is \<open>Index\<close>.  The pointer is null, a buffer, or an
  indeterminate value (the constructor from a copy leaves it unset when the
  count is 0); freeing or reallocating an indeterminate pointer is a fault.
  Each method is one definition over the state record, returning the updated
  record or the fault of the \<open>check\<close> that fails.  Operations that
  assign one array to another act on a store of arrays, so that a self
  assignment is the aliasing the code performs.  The section Abstraction gives
  the contract of the spec (a type and a list of values) and the refinement
  lemmas show which methods implement it.
\<close>

section \<open>State\<close>

datatype 'v buffer = NullPtr | Buf "'v cell list" | WildPtr

record 'v any_struct_array =
  asa_memory :: "'v buffer"
  asa_type :: "'v script_struct option"
  asa_num :: int

type_synonym 'v asa_store = "nat \<Rightarrow> 'v any_struct_array"

section \<open>Buffer primitives\<close>

text \<open>\<open>FMemory::Malloc\<close> of a count: a negative count converts to a huge size
  and the allocation fails fatally.  \<open>Realloc(nullptr, N)\<close> is \<open>Malloc(N)\<close>.\<close>

definition buf_malloc :: "int \<Rightarrow> 'v buffer checked" where
  "buf_malloc n = (if n < 0 then Inl OutOfMemory else Inr (Buf (mem_malloc (nat n))))"

fun buf_realloc :: "'v buffer \<Rightarrow> int \<Rightarrow> 'v buffer checked" where
  "buf_realloc NullPtr n = buf_malloc n"
| "buf_realloc (Buf cs) n = (if n < 0 then Inl OutOfMemory else Inr (Buf (mem_realloc cs (nat n))))"
| "buf_realloc WildPtr n = Inl BadPointer"

fun buf_free :: "'v buffer \<Rightarrow> unit checked" where
  "buf_free WildPtr = Inl BadPointer"
| "buf_free NullPtr = Inr ()"
| "buf_free (Buf cs) = Inr ()"

fun buf_cells :: "'v buffer \<Rightarrow> 'v cell list checked" where
  "buf_cells NullPtr = Inr []"
| "buf_cells (Buf cs) = Inr cs"
| "buf_cells WildPtr = Inl BadPointer"

text \<open>A struct operation through the pointer: through null it touches no slot
  (any slot it needs is out of bounds), through an indeterminate pointer it is
  a fault.\<close>

fun on_cells :: "('v cell list \<Rightarrow> 'v cell list checked) \<Rightarrow> 'v buffer \<Rightarrow> 'v buffer checked" where
  "on_cells f NullPtr = chk_bind (f []) (\<lambda>_. Inr NullPtr)"
| "on_cells f (Buf cs) = chk_bind (f cs) (\<lambda>cs'. Inr (Buf cs'))"
| "on_cells f WildPtr = Inl BadPointer"

text \<open>The growth step shared by every adding method:
  \<open>if (!Memory) { check(Ok); Memory = Malloc(N) } else Memory = Realloc(Memory, N)\<close>.\<close>

fun grow_buffer :: "bool \<Rightarrow> 'v buffer \<Rightarrow> int \<Rightarrow> 'v buffer checked" where
  "grow_buffer ok NullPtr n = (if ok then buf_malloc n else Inl BadCount)"
| "grow_buffer ok b n = buf_realloc b n"

text \<open>Reading \<open>N\<close> values through a caller's \<open>const void*\<close>: null is a fault,
  and so is reading past the caller's buffer.\<close>

definition src_vals :: "'v list option \<Rightarrow> nat \<Rightarrow> 'v list checked" where
  "src_vals p n =
     (case p of None \<Rightarrow> Inl NullCopy
      | Some vs \<Rightarrow> if n \<le> length vs then Inr (take n vs) else Inl OutOfBounds)"

text \<open>Reading \<open>N\<close> values of slots: each must hold a live value.\<close>

definition read_vals :: "'v cell list \<Rightarrow> nat \<Rightarrow> nat \<Rightarrow> 'v list checked" where
  "read_vals cs i n =
     (if length cs < i + n then Inl OutOfBounds
      else if \<not> list_all is_live (take n (drop i cs)) then Inl ReadDead
      else Inr (map (the \<circ> cell_val) (take n (drop i cs))))"

text \<open>\<open>InitializeStruct(P, N); CopyScriptStruct(P, Src, N)\<close>.\<close>

definition init_and_copy :: "'v script_struct \<Rightarrow> int \<Rightarrow> 'v list \<Rightarrow> 'v cell list \<Rightarrow> 'v cell list checked" where
  "init_and_copy t i vs cs = chk_bind (mem_init cs i (length vs) (ss_default t)) (\<lambda>cs1. mem_copy cs1 i vs)"

text \<open>The placement-new loops \<open>for (i = First; i < Last; ++i) new (Memory + i) T{Arg(i)}\<close>.\<close>

primrec construct_loop :: "(nat \<Rightarrow> 'v checked) \<Rightarrow> nat list \<Rightarrow> 'v cell list \<Rightarrow> 'v cell list checked" where
  "construct_loop f [] cs = Inr cs"
| "construct_loop f (i # is) cs = chk_bind (f i) (\<lambda>v. chk_bind (mem_init cs (int i) 1 v) (construct_loop f is))"

text \<open>\<open>TArrayView::operator[]\<close> with its range check.\<close>

definition view_at :: "'v list \<Rightarrow> nat \<Rightarrow> 'v checked" where
  "view_at vs i = (if i < length vs then Inr (vs ! i) else Inl OutOfBounds)"

text \<open>The element-compare loop of \<open>operator==\<close>: it returns false at the first
  unequal pair.\<close>

fun cmp_cells :: "'v cell list \<Rightarrow> 'v cell list \<Rightarrow> bool checked" where
  "cmp_cells (Live x # cs) (Live y # ds) = (if x = y then cmp_cells cs ds else Inr False)"
| "cmp_cells (c # cs) (d # ds) = Inl ReadDead"
| "cmp_cells _ _ = Inr True"

section \<open>Accessors\<close>

definition asa_struct :: "'v any_struct_array \<Rightarrow> 'v script_struct checked" where
  "asa_struct a = (case asa_type a of None \<Rightarrow> Inl TypeUninitialized | Some t \<Rightarrow> Inr t)"

definition asa_is_empty :: "'v any_struct_array \<Rightarrow> bool" where
  "asa_is_empty a \<longleftrightarrow> asa_num a = 0"

definition asa_is_valid_index :: "int \<Rightarrow> 'v any_struct_array \<Rightarrow> bool" where
  "asa_is_valid_index i a \<longleftrightarrow> i < asa_num a \<and> i > INDEX_NONE"

definition asa_is_a :: "'v script_struct \<Rightarrow> 'v any_struct_array \<Rightarrow> bool" where
  "asa_is_a base a = (case asa_type a of None \<Rightarrow> False | Some t \<Rightarrow> is_child_of t base)"

text \<open>\<open>checkf(ScriptStruct == TBaseStructure<T>::Get())\<close> and its companion
  \<open>checkf(ScriptStruct)\<close>.\<close>

definition asa_check_type :: "'v script_struct \<Rightarrow> 'v any_struct_array \<Rightarrow> unit checked" where
  "asa_check_type t a =
     (case asa_type a of None \<Rightarrow> Inl TypeUninitialized
      | Some s \<Rightarrow> if s = t then Inr () else Inl TypeMismatch)"

section \<open>Construction, copy, move and destruction\<close>

definition asa_new :: "'v any_struct_array" where
  "asa_new = \<lparr>asa_memory = NullPtr, asa_type = None, asa_num = 0\<rparr>"

definition asa_of_type :: "'v script_struct option \<Rightarrow> 'v any_struct_array checked" where
  "asa_of_type st =
     (case st of None \<Rightarrow> Inl NullType
      | Some t \<Rightarrow> Inr \<lparr>asa_memory = NullPtr, asa_type = Some t, asa_num = 0\<rparr>)"

definition asa_from_copy :: "'v script_struct option \<Rightarrow> 'v list option \<Rightarrow> int \<Rightarrow> 'v any_struct_array checked" where
  "asa_from_copy st cp n =
     (case st of None \<Rightarrow> Inl NullType
      | Some t \<Rightarrow>
         if \<not> n > INDEX_NONE then Inl BadCount
         else if cp = None then Inl NullCopy
         else if n = 0 then Inr \<lparr>asa_memory = WildPtr, asa_type = st, asa_num = n\<rparr>
         else chk_bind (buf_malloc n) (\<lambda>b.
                chk_bind (src_vals cp (nat n)) (\<lambda>vs.
                  chk_bind (on_cells (init_and_copy t 0 vs) b) (\<lambda>b'.
                    Inr \<lparr>asa_memory = b', asa_type = st, asa_num = n\<rparr>))))"

definition asa_copy :: "'v any_struct_array \<Rightarrow> 'v any_struct_array checked" where
  "asa_copy other =
     (if asa_is_empty other then Inr \<lparr>asa_memory = NullPtr, asa_type = asa_type other, asa_num = asa_num other\<rparr>
      else
        chk_bind (asa_struct other) (\<lambda>t.
          chk_bind (buf_malloc (asa_num other)) (\<lambda>b.
            chk_bind (buf_cells (asa_memory other)) (\<lambda>ocs.
              chk_bind (read_vals ocs 0 (nat (asa_num other))) (\<lambda>vs.
                chk_bind (on_cells (init_and_copy t 0 vs) b) (\<lambda>b'.
                  Inr \<lparr>asa_memory = b', asa_type = asa_type other, asa_num = asa_num other\<rparr>))))))"

text \<open>The move constructor: the new array and the emptied source.\<close>

definition asa_move :: "'v any_struct_array \<Rightarrow> 'v any_struct_array \<times> 'v any_struct_array" where
  "asa_move other = (other, asa_new)"


definition asa_make :: "'v script_struct \<Rightarrow> 'v any_struct_array" where
  "asa_make t = \<lparr>asa_memory = NullPtr, asa_type = Some t, asa_num = 0\<rparr>"

definition asa_make_num :: "'v script_struct \<Rightarrow> int \<Rightarrow> 'v any_struct_array checked" where
  "asa_make_num t n =
     (let num = max n 0 in
      chk_bind (buf_malloc n) (\<lambda>b.
        chk_bind (on_cells (construct_loop (\<lambda>_. Inr (ss_default t)) [0..<nat num]) b) (\<lambda>b'.
          Inr \<lparr>asa_memory = b', asa_type = Some t, asa_num = num\<rparr>)))"

definition asa_make_view :: "'v script_struct \<Rightarrow> 'v list \<Rightarrow> 'v any_struct_array checked" where
  "asa_make_view t vs =
     (let num = int (length vs) in
      if num = 0 then Inr \<lparr>asa_memory = NullPtr, asa_type = Some t, asa_num = num\<rparr>
      else chk_bind (buf_malloc num) (\<lambda>b.
             chk_bind (on_cells (construct_loop (view_at vs) [0..<nat num]) b) (\<lambda>b'.
               Inr \<lparr>asa_memory = b', asa_type = Some t, asa_num = num\<rparr>)))"

section \<open>Emptying and assignment\<close>

definition asa_empty :: "'v any_struct_array \<Rightarrow> 'v any_struct_array checked" where
  "asa_empty a =
     (if asa_is_empty a then Inr a
      else chk_bind (asa_struct a) (\<lambda>t.
             chk_bind (on_cells (\<lambda>cs. mem_destroy cs 0 (nat (asa_num a))) (asa_memory a)) (\<lambda>_.
               chk_bind (buf_free (asa_memory a)) (\<lambda>_.
                 Inr (a\<lparr>asa_memory := NullPtr, asa_num := 0\<rparr>)))))"

text \<open>\<open>operator=(const FAnyStructArray& Other)\<close>: \<open>Empty()\<close>, then the copy
  constructor placed in \<open>this\<close> reads \<open>Other\<close> (which is \<open>this\<close> itself under
  self assignment).\<close>

definition asa_assign :: "'v asa_store \<Rightarrow> nat \<Rightarrow> nat \<Rightarrow> 'v asa_store checked" where
  "asa_assign st dst src =
     chk_bind (asa_empty (st dst)) (\<lambda>a0.
       let st1 = st(dst := a0) in
       chk_bind (asa_copy (st1 src)) (\<lambda>a1. Inr (st1(dst := a1))))"

text \<open>\<open>operator=(FAnyStructArray&& Other)\<close>: \<open>Empty()\<close>, then the move
  constructor writes \<open>this\<close> from \<open>Other\<close> and clears \<open>Other\<close>.\<close>

definition asa_move_assign :: "'v asa_store \<Rightarrow> nat \<Rightarrow> nat \<Rightarrow> 'v asa_store checked" where
  "asa_move_assign st dst src =
     chk_bind (asa_empty (st dst)) (\<lambda>a0.
       let st1 = st(dst := a0); (a1, o1) = asa_move (st1 src) in
       Inr ((st1(dst := a1))(src := o1)))"

definition asa_assign_list :: "'v script_struct \<Rightarrow> 'v list \<Rightarrow> 'v any_struct_array \<Rightarrow> 'v any_struct_array checked" where
  "asa_assign_list t vs a = chk_bind (asa_empty a) (\<lambda>_. asa_make_view t vs)"

section \<open>Equality\<close>

definition asa_eq :: "'v any_struct_array \<Rightarrow> 'v any_struct_array \<Rightarrow> bool checked" where
  "asa_eq a b =
     (if asa_num a \<noteq> asa_num b then Inr False
      else if asa_is_empty a then Inr True
      else if asa_type a \<noteq> asa_type b then Inr False
      else chk_bind (asa_struct a) (\<lambda>_.
             chk_bind (buf_cells (asa_memory a)) (\<lambda>cs.
               chk_bind (buf_cells (asa_memory b)) (\<lambda>ds.
                 if length cs < nat (asa_num a) \<or> length ds < nat (asa_num a) then Inl OutOfBounds
                 else cmp_cells (take (nat (asa_num a)) cs) (take (nat (asa_num a)) ds)))))"

definition asa_ne :: "'v any_struct_array \<Rightarrow> 'v any_struct_array \<Rightarrow> bool checked" where
  "asa_ne a b = chk_bind (asa_eq a b) (\<lambda>r. Inr (\<not> r))"

section \<open>Adding elements\<close>

text \<open>\<open>Emplace<T>\<close> and \<open>Emplace_GetRef<T>\<close> (the same body; the reference
  returned is the slot \<open>Index\<close>).\<close>

definition asa_emplace :: "'v script_struct \<Rightarrow> 'v \<Rightarrow> 'v any_struct_array \<Rightarrow> ('v any_struct_array \<times> int) checked" where
  "asa_emplace t v a =
     chk_bind (asa_check_type t a) (\<lambda>_.
       let idx = asa_num a; n = idx + 1 in
       chk_bind (grow_buffer (n = 1) (asa_memory a) n) (\<lambda>b.
         chk_bind (on_cells (\<lambda>cs. mem_init cs idx 1 v) b) (\<lambda>b'.
           Inr (a\<lparr>asa_memory := b', asa_num := n\<rparr>, idx))))"

definition asa_add :: "'v script_struct \<Rightarrow> 'v \<Rightarrow> 'v any_struct_array \<Rightarrow> ('v any_struct_array \<times> int) checked" where
  "asa_add t v a = asa_emplace t v a"

text \<open>\<open>Append(TConstArrayView)\<close> and \<open>Append(initializer_list)\<close>: the loop
  constructs slot \<open>i\<close> from \<open>ArrayView[i]\<close> for \<open>i\<close> from the old count.\<close>

definition asa_append_view :: "'v script_struct \<Rightarrow> 'v list \<Rightarrow> 'v any_struct_array \<Rightarrow> 'v any_struct_array checked" where
  "asa_append_view t vs a =
     chk_bind (asa_check_type t a) (\<lambda>_.
       if vs = [] then Inr a
       else
         let idx = asa_num a; n = idx + int (length vs) in
         chk_bind (grow_buffer (n > 0) (asa_memory a) n) (\<lambda>b.
           chk_bind (on_cells (construct_loop (view_at vs) [nat idx..<nat n]) b) (\<lambda>b'.
             Inr (a\<lparr>asa_memory := b', asa_num := n\<rparr>))))"

text \<open>\<open>Insert<T>(Value, Index)\<close>: grow by one, move the tail up one slot with
  \<open>Memmove\<close>, construct at \<open>Index\<close>.\<close>

definition asa_insert :: "'v script_struct \<Rightarrow> 'v \<Rightarrow> int \<Rightarrow> 'v any_struct_array \<Rightarrow> ('v any_struct_array \<times> int) checked" where
  "asa_insert t v i a =
     chk_bind (asa_check_type t a) (\<lambda>_.
       if \<not> (i \<le> asa_num a \<and> i > INDEX_NONE) then Inl InvalidIndex
       else
         let n = asa_num a + 1; mv = n - (i + 1) in
         chk_bind (grow_buffer (n = 1) (asa_memory a) n) (\<lambda>b.
           chk_bind (on_cells (\<lambda>cs.
               mem_init (if mv \<noteq> 0 then mem_memmove cs (nat i + 1) (nat i) (nat mv) else cs) i 1 v) b) (\<lambda>b'.
             Inr (a\<lparr>asa_memory := b', asa_num := n\<rparr>, i))))"

definition asa_add_uninitialized :: "int \<Rightarrow> 'v any_struct_array \<Rightarrow> ('v any_struct_array \<times> int) checked" where
  "asa_add_uninitialized k a =
     chk_bind (asa_struct a) (\<lambda>_.
       if \<not> k > 0 then Inl BadCount
       else
         let old = asa_num a; n = old + k in
         chk_bind (grow_buffer (n > 0) (asa_memory a) n) (\<lambda>b.
           Inr (a\<lparr>asa_memory := b, asa_num := n\<rparr>, old)))"

definition asa_get_raw_ptr :: "int \<Rightarrow> 'v any_struct_array \<Rightarrow> int checked" where
  "asa_get_raw_ptr i a =
     (if \<not> asa_is_valid_index i a then Inl InvalidIndex
      else chk_bind (asa_struct a) (\<lambda>_. Inr i))"

definition asa_add_defaulted :: "int \<Rightarrow> 'v any_struct_array \<Rightarrow> ('v any_struct_array \<times> int) checked" where
  "asa_add_defaulted k a =
     chk_bind (asa_add_uninitialized k a) (\<lambda>(a1, first).
       chk_bind (asa_get_raw_ptr first a1) (\<lambda>p.
         chk_bind (asa_struct a1) (\<lambda>t.
           chk_bind (on_cells (\<lambda>cs. mem_init cs p (nat k) (ss_default t)) (asa_memory a1)) (\<lambda>b.
             Inr (a1\<lparr>asa_memory := b\<rparr>, first)))))"

definition asa_insert_at_from_buffer :: "'v list option \<Rightarrow> int \<Rightarrow> 'v any_struct_array \<Rightarrow> ('v any_struct_array \<times> int) checked" where
  "asa_insert_at_from_buffer cp i a =
     chk_bind (asa_struct a) (\<lambda>t.
       if \<not> (i \<le> asa_num a \<and> i > INDEX_NONE) then Inl InvalidIndex
       else
         let n = asa_num a + 1; mv = n - (i + 1) in
         chk_bind (grow_buffer (n = 1) (asa_memory a) n) (\<lambda>b.
           chk_bind (src_vals cp 1) (\<lambda>vs.
             chk_bind (on_cells (\<lambda>cs.
                 init_and_copy t i vs (if mv \<noteq> 0 then mem_memmove cs (nat i + 1) (nat i) (nat mv) else cs)) b) (\<lambda>b'.
               Inr (a\<lparr>asa_memory := b', asa_num := n\<rparr>, i)))))"

definition asa_add_from_buffer :: "'v list option \<Rightarrow> 'v any_struct_array \<Rightarrow> ('v any_struct_array \<times> int) checked" where
  "asa_add_from_buffer cp a =
     (if cp = None then Inl NullCopy
      else chk_bind (asa_struct a) (\<lambda>t.
        let idx = asa_num a; n = idx + 1 in
        chk_bind (grow_buffer (n = 1) (asa_memory a) n) (\<lambda>b.
          chk_bind (src_vals cp 1) (\<lambda>vs.
            chk_bind (on_cells (init_and_copy t idx vs) b) (\<lambda>b'.
              Inr (a\<lparr>asa_memory := b', asa_num := n\<rparr>, idx))))))"

definition asa_append_from_buffer :: "'v list option \<Rightarrow> int \<Rightarrow> 'v any_struct_array \<Rightarrow> 'v any_struct_array checked" where
  "asa_append_from_buffer cp k a =
     (if \<not> k > INDEX_NONE then Inl BadCount
      else if cp = None \<or> k = 0 then Inr a
      else
        let idx = asa_num a; n = idx + k in
        chk_bind (asa_struct a) (\<lambda>t.
          chk_bind (grow_buffer (n \<ge> 1) (asa_memory a) n) (\<lambda>b.
            chk_bind (src_vals cp (nat k)) (\<lambda>vs.
              chk_bind (on_cells (init_and_copy t idx vs) b) (\<lambda>b'.
                Inr (a\<lparr>asa_memory := b', asa_num := n\<rparr>))))))"

section \<open>Removing elements and resizing\<close>

text \<open>\<open>RemoveAt(Index, Num)\<close>: destroy \<open>min(Num, NumElems - Index)\<close> slots,
  move the tail down, then free or shrink the buffer.\<close>

definition asa_remove_at :: "int \<Rightarrow> int \<Rightarrow> 'v any_struct_array \<Rightarrow> 'v any_struct_array checked" where
  "asa_remove_at i k a =
     (if \<not> asa_is_valid_index i a then Inl InvalidIndex
      else if \<not> k > 0 then Inl BadCount
      else
        let rm = min k (asa_num a - i); mv = asa_num a - (i + rm); n = asa_num a - rm in
        chk_bind (asa_struct a) (\<lambda>_.
          chk_bind (on_cells (\<lambda>cs.
              chk_bind (mem_destroy cs i (nat rm)) (\<lambda>cs1.
                Inr (if mv \<noteq> 0 then mem_memmove cs1 (nat i) (nat (i + rm)) (nat mv) else cs1)))
              (asa_memory a)) (\<lambda>b.
            if n = 0 then chk_bind (buf_free b) (\<lambda>_. Inr (a\<lparr>asa_memory := NullPtr, asa_num := n\<rparr>))
            else chk_bind (buf_realloc b n) (\<lambda>b'. Inr (a\<lparr>asa_memory := b', asa_num := n\<rparr>)))))"

text \<open>The tail of \<open>SetNumUninitialized\<close>, \<open>SetNum\<close> and \<open>Resize\<close>:
  \<open>if (Num == 0) { Free(Memory); Memory = nullptr } else Memory = Realloc(Memory, Num)\<close>.\<close>

definition free_or_realloc :: "'v buffer \<Rightarrow> int \<Rightarrow> 'v buffer checked" where
  "free_or_realloc b n = (if n = 0 then chk_bind (buf_free b) (\<lambda>_. Inr NullPtr) else buf_realloc b n)"

definition asa_set_num_uninitialized :: "int \<Rightarrow> 'v any_struct_array \<Rightarrow> 'v any_struct_array checked" where
  "asa_set_num_uninitialized k a =
     (if \<not> k > INDEX_NONE then Inl BadCount
      else if k = asa_num a then Inr a
      else chk_bind (asa_struct a) (\<lambda>_.
        chk_bind (if k < asa_num a
                  then on_cells (\<lambda>cs. mem_destroy cs (k - 1) (nat (asa_num a - k))) (asa_memory a)
                  else Inr (asa_memory a)) (\<lambda>b.
          chk_bind (free_or_realloc b k) (\<lambda>b'.
            Inr (a\<lparr>asa_memory := b', asa_num := k\<rparr>)))))"

definition asa_set_num :: "int \<Rightarrow> 'v any_struct_array \<Rightarrow> 'v any_struct_array checked" where
  "asa_set_num k a =
     (if \<not> k > INDEX_NONE then Inl BadCount
      else if k = asa_num a then Inr a
      else chk_bind (asa_struct a) (\<lambda>t.
        chk_bind (if k < asa_num a
                  then on_cells (\<lambda>cs. mem_destroy cs (k - 1) (nat (asa_num a - k))) (asa_memory a)
                  else on_cells (\<lambda>cs. mem_init cs (asa_num a - 1) (nat (k - asa_num a)) (ss_default t))
                         (asa_memory a)) (\<lambda>b.
          chk_bind (free_or_realloc b k) (\<lambda>b'.
            Inr (a\<lparr>asa_memory := b', asa_num := k\<rparr>)))))"

text \<open>\<open>Resize(NewSize)\<close>: with a non-null buffer it calls \<open>Malloc\<close>, with a
  null one \<open>Realloc\<close>.\<close>

definition asa_resize :: "int \<Rightarrow> 'v any_struct_array \<Rightarrow> 'v any_struct_array checked" where
  "asa_resize k a =
     (if \<not> k > INDEX_NONE then Inl BadCount
      else if asa_num a = k then Inr a
      else if k = 0 then chk_bind (buf_free (asa_memory a)) (\<lambda>_. Inr (a\<lparr>asa_memory := NullPtr, asa_num := k\<rparr>))
      else chk_bind (asa_struct a) (\<lambda>_.
        chk_bind (if asa_memory a \<noteq> NullPtr then buf_malloc k else buf_realloc (asa_memory a) k) (\<lambda>b.
          Inr (a\<lparr>asa_memory := b, asa_num := k\<rparr>))))"

section \<open>Element access and iteration\<close>

definition asa_get :: "'v script_struct \<Rightarrow> int \<Rightarrow> 'v any_struct_array \<Rightarrow> 'v cell checked" where
  "asa_get t i a =
     (if asa_type a \<noteq> Some t then Inl TypeMismatch
      else if \<not> asa_is_valid_index i a then Inl InvalidIndex
      else chk_bind (buf_cells (asa_memory a)) (\<lambda>cs.
             if nat i < length cs then Inr (cs ! nat i) else Inl OutOfBounds))"

definition asa_last :: "'v script_struct \<Rightarrow> 'v any_struct_array \<Rightarrow> 'v cell checked" where
  "asa_last t a = (if asa_is_empty a then Inl EmptyArray else asa_get t (asa_num a - 1) a)"

definition asa_last_raw :: "'v any_struct_array \<Rightarrow> int checked" where
  "asa_last_raw a = (if asa_is_empty a then Inl EmptyArray else asa_get_raw_ptr (asa_num a - 1) a)"

text \<open>\<open>ForEach<T>()\<close>: the iterator's range \<open>[Memory, Memory + NumElems)\<close>.\<close>

definition asa_for_each :: "'v script_struct \<Rightarrow> 'v any_struct_array \<Rightarrow> 'v cell list checked" where
  "asa_for_each t a =
     (if asa_type a \<noteq> Some t then Inl TypeMismatch
      else chk_bind (buf_cells (asa_memory a)) (\<lambda>cs.
             if nat (asa_num a) \<le> length cs then Inr (take (nat (asa_num a)) cs) else Inl OutOfBounds))"

section \<open>Abstraction\<close>

text \<open>
  The contract of the spec (DynamicValueArray, section 4.1): an array is its
  type and the list of its values; every slot of the buffer holds a live
  value, the count is the number of slots, the pointer is null when there is
  no slot, and an array with elements has a type.  \<open>asa_elems\<close> reads the
  values.
\<close>

definition asa_cells :: "'v any_struct_array \<Rightarrow> 'v cell list" where
  "asa_cells a = (case asa_memory a of Buf cs \<Rightarrow> cs | _ \<Rightarrow> [])"

definition asa_elems :: "'v any_struct_array \<Rightarrow> 'v list" where
  "asa_elems a = map (the \<circ> cell_val) (asa_cells a)"

definition asa_inv :: "'v any_struct_array \<Rightarrow> bool" where
  "asa_inv a \<longleftrightarrow>
     (case asa_memory a of
        NullPtr \<Rightarrow> asa_num a = 0
      | Buf cs \<Rightarrow> asa_num a = int (length cs) \<and> list_all is_live cs
      | WildPtr \<Rightarrow> False) \<and>
     (asa_type a = None \<longrightarrow> asa_num a = 0)"

text \<open>The operations of the contract that the spec gives a meaning on lists.\<close>

datatype 'v arr_op =
    OpEmplace 'v | OpInsert 'v int | OpAddDefaulted int | OpAddFromBuffer 'v
  | OpInsertAtFromBuffer 'v int | OpAppendFromBuffer "'v list" | OpRemoveAt int int | OpEmpty

text \<open>The contract on lists: \<open>None\<close> is a contract violation (a fault).\<close>

fun arr_spec :: "'v script_struct \<Rightarrow> 'v arr_op \<Rightarrow> 'v list \<Rightarrow> 'v list option" where
  "arr_spec t (OpEmplace v) xs = Some (xs @ [v])"
| "arr_spec t (OpInsert v i) xs =
     (if 0 \<le> i \<and> i \<le> int (length xs) then Some (take (nat i) xs @ v # drop (nat i) xs) else None)"
| "arr_spec t (OpAddDefaulted k) xs = (if 0 < k then Some (xs @ replicate (nat k) (ss_default t)) else None)"
| "arr_spec t (OpAddFromBuffer v) xs = Some (xs @ [v])"
| "arr_spec t (OpInsertAtFromBuffer v i) xs =
     (if 0 \<le> i \<and> i \<le> int (length xs) then Some (take (nat i) xs @ v # drop (nat i) xs) else None)"
| "arr_spec t (OpAppendFromBuffer vs) xs = Some (xs @ vs)"
| "arr_spec t (OpRemoveAt i k) xs =
     (if 0 \<le> i \<and> i < int (length xs) \<and> 0 < k then Some (take (nat i) xs @ drop (nat (i + k)) xs) else None)"
| "arr_spec t OpEmpty xs = Some []"

text \<open>\<open>set_count\<close> of the contract: truncate, or pad with default values.\<close>

definition arr_set_count :: "'v script_struct \<Rightarrow> nat \<Rightarrow> 'v list \<Rightarrow> 'v list" where
  "arr_set_count t k xs = take k xs @ replicate (k - length xs) (ss_default t)"

text \<open>Each contract operation as the call the code makes for it.\<close>

fun asa_step :: "'v script_struct \<Rightarrow> 'v arr_op \<Rightarrow> 'v any_struct_array \<Rightarrow> 'v any_struct_array checked" where
  "asa_step t (OpEmplace v) a = chk_bind (asa_emplace t v a) (\<lambda>(a', _). Inr a')"
| "asa_step t (OpInsert v i) a = chk_bind (asa_insert t v i a) (\<lambda>(a', _). Inr a')"
| "asa_step t (OpAddDefaulted k) a = chk_bind (asa_add_defaulted k a) (\<lambda>(a', _). Inr a')"
| "asa_step t (OpAddFromBuffer v) a = chk_bind (asa_add_from_buffer (Some [v]) a) (\<lambda>(a', _). Inr a')"
| "asa_step t (OpInsertAtFromBuffer v i) a = chk_bind (asa_insert_at_from_buffer (Some [v]) i a) (\<lambda>(a', _). Inr a')"
| "asa_step t (OpAppendFromBuffer vs) a = asa_append_from_buffer (Some vs) (int (length vs)) a"
| "asa_step t (OpRemoveAt i k) a = asa_remove_at i k a"
| "asa_step t OpEmpty a = asa_empty a"

fun arr_run :: "'v script_struct \<Rightarrow> 'v arr_op list \<Rightarrow> 'v list \<Rightarrow> 'v list option" where
  "arr_run t [] xs = Some xs"
| "arr_run t (op # ops) xs = (case arr_spec t op xs of None \<Rightarrow> None | Some ys \<Rightarrow> arr_run t ops ys)"

fun asa_run :: "'v script_struct \<Rightarrow> 'v arr_op list \<Rightarrow> 'v any_struct_array \<Rightarrow> 'v any_struct_array checked" where
  "asa_run t [] a = Inr a"
| "asa_run t (op # ops) a = chk_bind (asa_step t op a) (asa_run t ops)"

text \<open>Proof vocabulary: the cells after growing by one and moving the tail up from slot \<open>j\<close>.\<close>

definition shifted :: "'v cell list \<Rightarrow> nat \<Rightarrow> 'v cell list" where
  "shifted cs j = (if j < length cs then mem_memmove (cs @ [Uninit]) (Suc j) j (length cs - j) else cs @ [Uninit])"

section \<open>Fixtures\<close>

text \<open>A 4-byte element type with default value 0 and a three-element array of it,
  as \<open>Make<T>({1, 2, 3})\<close> builds it.\<close>

definition ex_elem :: "nat script_struct" where
  "ex_elem = \<lparr>ss_uid = 7, ss_size = 4, ss_align = 4, ss_default = 0, ss_super = []\<rparr>"

definition ex_elem2 :: "nat script_struct" where
  "ex_elem2 = \<lparr>ss_uid = 8, ss_size = 8, ss_align = 8, ss_default = 0, ss_super = []\<rparr>"

definition ex_arr3 :: "nat any_struct_array" where
  "ex_arr3 = \<lparr>asa_memory = Buf [Live 1, Live 2, Live 3], asa_type = Some ex_elem, asa_num = 3\<rparr>"

section \<open>Lemmas\<close>


lemma asa_invD:
  assumes "asa_inv a"
  shows "asa_num a = int (length (asa_cells a))" "list_all is_live (asa_cells a)"
    "asa_memory a = NullPtr \<or> asa_memory a = Buf (asa_cells a)"
    "asa_type a = None \<Longrightarrow> asa_num a = 0"
  using assms by (auto simp: asa_inv_def asa_cells_def split: buffer.splits)

lemma asa_inv_null:
  "asa_inv a \<Longrightarrow> asa_memory a = NullPtr \<Longrightarrow> asa_num a = 0 \<and> asa_cells a = []"
  by (simp add: asa_inv_def asa_cells_def)

lemma grow_buffer_inv:
  assumes "asa_inv a" "0 \<le> k" "asa_memory a = NullPtr \<Longrightarrow> ok"
  shows "grow_buffer ok (asa_memory a) (asa_num a + k) = Inr (Buf (asa_cells a @ replicate (nat k) Uninit))"
  using assms
  by (cases "asa_memory a")
     (auto simp: asa_inv_def asa_cells_def buf_malloc_def mem_malloc_def mem_realloc_grow nat_add_distrib)

lemma asa_emplace_inv:
  assumes "asa_inv a" "asa_type a = Some t"
  shows "asa_emplace t v a =
           Inr (a\<lparr>asa_memory := Buf (asa_cells a @ [Live v]), asa_num := asa_num a + 1\<rparr>, asa_num a)"
proof -
  have g: "grow_buffer (asa_num a + 1 = 1) (asa_memory a) (asa_num a + 1) = Inr (Buf (asa_cells a @ [Uninit]))"
    using grow_buffer_inv [OF assms(1), of 1 "asa_num a + 1 = 1"] asa_inv_null [OF assms(1)] by auto
  have "mem_init (asa_cells a @ [Uninit]) (asa_num a) 1 v = Inr (asa_cells a @ [Live v])"
    using mem_init_append [of "asa_cells a" "[Uninit]" v] asa_invD(1) [OF assms(1)] by simp
  with g assms(2) show ?thesis by (simp add: asa_emplace_def asa_check_type_def Let_def)
qed

lemma init_and_copy_one:
  "j < length cs \<Longrightarrow> init_and_copy t (int j) [v] cs = Inr (cs[j := Live v])"
  by (simp add: init_and_copy_def mem_init_one mem_copy_one)

lemma shift_up_update:
  assumes "j < length cs"
  shows "(mem_memmove (cs @ [Uninit]) (Suc j) j (length cs - j))[j := x] = take j cs @ x # drop j cs"
    "j < length (mem_memmove (cs @ [Uninit]) (Suc j) j (length cs - j))"
proof -
  have m: "mem_memmove (cs @ [Uninit]) (Suc j) j (length cs - j) = take (Suc j) cs @ drop j cs"
    using assms by (simp add: mem_memmove_def)
  show "(mem_memmove (cs @ [Uninit]) (Suc j) j (length cs - j))[j := x] = take j cs @ x # drop j cs"
    using assms by (simp add: m take_Suc_conv_app_nth list_update_append)
  show "j < length (mem_memmove (cs @ [Uninit]) (Suc j) j (length cs - j))"
    using assms by (simp add: m)
qed

lemma shifted_update:
  "j \<le> length cs \<Longrightarrow> j < length (shifted cs j) \<and> (shifted cs j)[j := x] = take j cs @ x # drop j cs"
  using shift_up_update(1) [of j cs x] shift_up_update(2) [of j cs] by (auto simp: shifted_def)

lemma insert_shift_eq:
  assumes "0 \<le> i" "i \<le> int (length cs)"
  shows "(if int (length cs) + 1 - (i + 1) \<noteq> 0
          then mem_memmove (cs @ [Uninit]) (nat i + 1) (nat i) (nat (int (length cs) + 1 - (i + 1)))
          else cs @ [Uninit]) = shifted cs (nat i)"
  using assms by (auto simp: shifted_def nat_diff_distrib)

lemma asa_insert_inv:
  assumes inv: "asa_inv a" and ty: "asa_type a = Some t" and i: "0 \<le> i" "i \<le> asa_num a"
  shows "asa_insert t v i a =
           Inr (a\<lparr>asa_memory := Buf (take (nat i) (asa_cells a) @ Live v # drop (nat i) (asa_cells a)),
                  asa_num := asa_num a + 1\<rparr>, i)"
proof -
  let ?cs = "asa_cells a"
  have n: "asa_num a = int (length ?cs)" using asa_invD(1) [OF inv] .
  have g: "grow_buffer (asa_num a + 1 = 1) (asa_memory a) (asa_num a + 1) = Inr (Buf (?cs @ [Uninit]))"
    using grow_buffer_inv [OF inv, of 1 "asa_num a + 1 = 1"] asa_inv_null [OF inv] by auto
  have j: "nat i \<le> length ?cs" using i n by simp
  have "mem_init (shifted ?cs (nat i)) i 1 v = Inr (take (nat i) ?cs @ Live v # drop (nat i) ?cs)"
    using shifted_update [OF j, of "Live v"] mem_init_one [of "nat i" "shifted ?cs (nat i)" v] i by simp
  then show ?thesis
    using g ty i insert_shift_eq [of i ?cs] n by (simp add: asa_insert_def asa_check_type_def Let_def)
qed

lemma asa_insert_at_from_buffer_inv:
  assumes inv: "asa_inv a" and ty: "asa_type a = Some t" and i: "0 \<le> i" "i \<le> asa_num a"
  shows "asa_insert_at_from_buffer (Some [v]) i a =
           Inr (a\<lparr>asa_memory := Buf (take (nat i) (asa_cells a) @ Live v # drop (nat i) (asa_cells a)),
                  asa_num := asa_num a + 1\<rparr>, i)"
proof -
  let ?cs = "asa_cells a"
  have n: "asa_num a = int (length ?cs)" using asa_invD(1) [OF inv] .
  have g: "grow_buffer (asa_num a + 1 = 1) (asa_memory a) (asa_num a + 1) = Inr (Buf (?cs @ [Uninit]))"
    using grow_buffer_inv [OF inv, of 1 "asa_num a + 1 = 1"] asa_inv_null [OF inv] by auto
  have j: "nat i \<le> length ?cs" using i n by simp
  have "init_and_copy t i [v] (shifted ?cs (nat i)) = Inr (take (nat i) ?cs @ Live v # drop (nat i) ?cs)"
    using shifted_update [OF j, of "Live v"] init_and_copy_one [where j = "nat i" and cs = "shifted ?cs (nat i)" and t = t and v = v] i by simp
  then show ?thesis
    using g ty i insert_shift_eq [of i ?cs] n
    by (simp add: asa_insert_at_from_buffer_def asa_struct_def src_vals_def Let_def)
qed

lemma asa_add_uninitialized_inv:
  assumes inv: "asa_inv a" and ty: "asa_type a = Some t" and k: "0 < k"
  shows "asa_add_uninitialized k a =
           Inr (a\<lparr>asa_memory := Buf (asa_cells a @ replicate (nat k) Uninit), asa_num := asa_num a + k\<rparr>, asa_num a)"
proof -
  have "grow_buffer (asa_num a + k > 0) (asa_memory a) (asa_num a + k) = Inr (Buf (asa_cells a @ replicate (nat k) Uninit))"
    using grow_buffer_inv [OF inv, of k "asa_num a + k > 0"] asa_inv_null [OF inv] k by auto
  then show ?thesis using ty k by (simp add: asa_add_uninitialized_def asa_struct_def Let_def)
qed

lemma asa_add_defaulted_inv:
  assumes inv: "asa_inv a" and ty: "asa_type a = Some t" and k: "0 < k"
  shows "asa_add_defaulted k a =
           Inr (a\<lparr>asa_memory := Buf (asa_cells a @ replicate (nat k) (Live (ss_default t))),
                  asa_num := asa_num a + k\<rparr>, asa_num a)"
proof -
  let ?cs = "asa_cells a"
  have n: "asa_num a = int (length ?cs)" using asa_invD(1) [OF inv] .
  have "mem_init (?cs @ replicate (nat k) Uninit) (asa_num a) (nat k) (ss_default t) =
          Inr (?cs @ replicate (nat k) (Live (ss_default t)))"
    using mem_init_append [of ?cs "replicate (nat k) Uninit" "ss_default t"] n by simp
  then show ?thesis
    using asa_add_uninitialized_inv [OF inv ty k] ty k n
    by (simp add: asa_add_defaulted_def asa_get_raw_ptr_def asa_is_valid_index_def asa_struct_def)
qed

lemma asa_add_from_buffer_inv:
  assumes inv: "asa_inv a" and ty: "asa_type a = Some t"
  shows "asa_add_from_buffer (Some [v]) a =
           Inr (a\<lparr>asa_memory := Buf (asa_cells a @ [Live v]), asa_num := asa_num a + 1\<rparr>, asa_num a)"
proof -
  let ?cs = "asa_cells a"
  have n: "asa_num a = int (length ?cs)" using asa_invD(1) [OF inv] .
  have g: "grow_buffer (asa_num a + 1 = 1) (asa_memory a) (asa_num a + 1) = Inr (Buf (?cs @ [Uninit]))"
    using grow_buffer_inv [OF inv, of 1 "asa_num a + 1 = 1"] asa_inv_null [OF inv] by auto
  have "init_and_copy t (asa_num a) [v] (?cs @ [Uninit]) = Inr (?cs @ [Live v])"
    using init_and_copy_one [where j = "length ?cs" and cs = "?cs @ [Uninit]" and t = t and v = v] n by simp
  then show ?thesis using g ty by (simp add: asa_add_from_buffer_def asa_struct_def src_vals_def Let_def)
qed

lemma asa_append_from_buffer_inv:
  assumes inv: "asa_inv a" and ty: "asa_type a = Some t"
  shows "asa_append_from_buffer (Some vs) (int (length vs)) a =
           Inr (if vs = [] then a
                else a\<lparr>asa_memory := Buf (asa_cells a @ map Live vs), asa_num := asa_num a + int (length vs)\<rparr>)"
proof (cases "vs = []")
  case False
  let ?cs = "asa_cells a" and ?n = "asa_num a + int (length vs)"
  have n: "asa_num a = int (length ?cs)" using asa_invD(1) [OF inv] .
  have ok: "asa_memory a = NullPtr \<Longrightarrow> ?n \<ge> 1" using asa_inv_null [OF inv] False by (cases vs) auto
  have g: "grow_buffer (?n \<ge> 1) (asa_memory a) ?n = Inr (Buf (?cs @ replicate (length vs) Uninit))"
    using grow_buffer_inv [OF inv _ ok] by simp
  have i: "mem_init (?cs @ replicate (length vs) Uninit) (int (length ?cs)) (length vs) (ss_default t) =
             Inr (?cs @ replicate (length vs) (Live (ss_default t)))"
    using mem_init_append [of ?cs "replicate (length vs) Uninit" "ss_default t"] by simp
  have c: "mem_copy (?cs @ replicate (length vs) (Live (ss_default t))) (int (length ?cs)) vs = Inr (?cs @ map Live vs)"
    by (rule mem_copy_append) simp
  have ic: "init_and_copy t (asa_num a) vs (?cs @ replicate (length vs) Uninit) = Inr (?cs @ map Live vs)"
    unfolding init_and_copy_def n i using c by simp
  have s: "src_vals (Some vs) (nat (int (length vs))) = Inr vs" by (simp add: src_vals_def)
  have k: "\<not> \<not> int (length vs) > INDEX_NONE" "\<not> (Some vs = None \<or> int (length vs) = 0)" using False by auto
  show ?thesis
    unfolding asa_append_from_buffer_def if_not_P [OF k(1)] if_not_P [OF k(2)] Let_def
    using g s ic ty False by (simp add: asa_struct_def)
qed (simp add: asa_append_from_buffer_def)

lemma asa_cells_record [simp]:
  "asa_cells \<lparr>asa_memory = m, asa_type = ty, asa_num = n\<rparr> = (case m of Buf cs \<Rightarrow> cs | _ \<Rightarrow> [])"
  by (simp add: asa_cells_def)

lemma asa_cells_num_upd [simp]: "asa_cells (a\<lparr>asa_num := n\<rparr>) = asa_cells a"
  by (simp add: asa_cells_def)

lemma asa_cells_mem_upd [simp]: "asa_cells (a\<lparr>asa_memory := Buf cs\<rparr>) = cs" "asa_cells (a\<lparr>asa_memory := NullPtr\<rparr>) = []"
  by (simp_all add: asa_cells_def)

lemma asa_inv_intro:
  assumes "asa_num a = int (length (asa_cells a))" "list_all is_live (asa_cells a)"
    "asa_memory a = NullPtr \<and> asa_cells a = [] \<or> asa_memory a = Buf (asa_cells a)"
    "asa_type a = None \<Longrightarrow> asa_num a = 0"
  shows "asa_inv a"
  using assms by (auto simp: asa_inv_def asa_cells_def split: buffer.splits)

lemma remove_shift_down:
  assumes "j + r \<le> length cs"
  defines "D \<equiv> take j cs @ replicate r Uninit @ drop (j + r) cs"
  shows "length (if length cs - (j + r) \<noteq> 0 then mem_memmove D j (j + r) (length cs - (j + r)) else D) = length cs \<and>
         take (length cs - r) (if length cs - (j + r) \<noteq> 0 then mem_memmove D j (j + r) (length cs - (j + r)) else D) =
           take j cs @ drop (j + r) cs"
  using assms(1) by (auto simp: D_def mem_memmove_def min_def)

lemma asa_remove_at_inv:
  assumes inv: "asa_inv a" and i: "0 \<le> i" "i < asa_num a" and k: "0 < k"
  shows "\<exists>a'. asa_remove_at i k a = Inr a' \<and> asa_inv a' \<and> asa_type a' = asa_type a \<and>
              asa_cells a' = take (nat i) (asa_cells a) @ drop (nat (i + k)) (asa_cells a)"
proof -
  let ?cs = "asa_cells a"
  have n: "asa_num a = int (length ?cs)" using asa_invD(1) [OF inv] .
  have mem: "asa_memory a = Buf ?cs" using asa_invD(3) [OF inv] asa_inv_null [OF inv] i by auto
  obtain t where ty: "asa_type a = Some t" using asa_invD(4) [OF inv] i by fastforce
  obtain j where ij: "i = int j" using i(1) nonneg_int_cases by blast
  define r where "r = min (nat k) (length ?cs - j)"
  have jr: "j + r \<le> length ?cs" "j < length ?cs" using i n ij by (auto simp: r_def)
  have rm: "min k (asa_num a - i) = int r" using n ij k jr(2) by (auto simp: r_def min_def)
  define D where "D = take j ?cs @ replicate r Uninit @ drop (j + r) ?cs"
  define M where "M = (if length ?cs - (j + r) \<noteq> 0 then mem_memmove D j (j + r) (length ?cs - (j + r)) else D)"
  have M: "length M = length ?cs" "take (length ?cs - r) M = take j ?cs @ drop (j + r) ?cs"
    using remove_shift_down [OF jr(1)] unfolding M_def D_def by blast+
  have d: "mem_destroy ?cs i (nat (int r)) = Inr D"
    using mem_destroy_live [OF jr(1) asa_invD(2) [OF inv]] by (simp add: ij D_def)
  have mv: "(asa_num a - (i + int r) \<noteq> 0) = (length ?cs - (j + r) \<noteq> 0)"
    "nat (i + int r) = j + r" "nat (asa_num a - (i + int r)) = length ?cs - (j + r)"
    using n ij jr by auto
  have oc: "on_cells (\<lambda>cs. chk_bind (mem_destroy cs i (nat (int r))) (\<lambda>cs1.
               Inr (if asa_num a - (i + int r) \<noteq> 0 then mem_memmove cs1 (nat i) (nat (i + int r)) (nat (asa_num a - (i + int r)))
                    else cs1))) (asa_memory a) = Inr (Buf M)"
    using d mv by (simp add: mem M_def ij)
  have dr: "drop (nat (i + k)) ?cs = drop (j + r) ?cs"
    using ij k by (auto simp: r_def min_def nat_add_distrib)
  have nn: "asa_num a - int r = int (length ?cs - r)" using n jr by simp
  have unf: "asa_remove_at i k a =
     (if int (length ?cs - r) = 0 then chk_bind (buf_free (Buf M)) (\<lambda>_. Inr (a\<lparr>asa_memory := NullPtr, asa_num := int (length ?cs - r)\<rparr>))
      else chk_bind (buf_realloc (Buf M) (int (length ?cs - r))) (\<lambda>b'. Inr (a\<lparr>asa_memory := b', asa_num := int (length ?cs - r)\<rparr>)))"
    unfolding asa_remove_at_def Let_def rm nn [symmetric] using i k ty oc
    by (simp add: asa_is_valid_index_def asa_struct_def)
  have live: "list_all is_live (take j ?cs @ drop (j + r) ?cs)"
    using asa_invD(2) [OF inv] by (auto simp: list_all_iff dest: in_set_takeD in_set_dropD)
  show ?thesis
  proof (cases "length ?cs - r = 0")
    case True
    then have "take j ?cs @ drop (j + r) ?cs = []" using M(2) by simp
    then show ?thesis
      unfolding unf dr using True ty by (auto intro!: asa_inv_intro simp: asa_cells_def ij)
  next
    case False
    let ?L = "length ?cs - r"
    let ?a' = "a\<lparr>asa_memory := Buf (take ?L M), asa_num := int ?L\<rparr>"
    have rl: "buf_realloc (Buf M) (int ?L) = Inr (Buf (take ?L M))" using M(1) by (simp add: mem_realloc_shrink)
    have c: "asa_cells ?a' = take j ?cs @ drop (j + r) ?cs" using M(2) by simp
    have l: "length (take j ?cs @ drop (j + r) ?cs) = ?L" using jr by simp
    have "asa_remove_at i k a = Inr ?a'" unfolding unf using False rl by simp
    moreover have "asa_inv ?a'" by (rule asa_inv_intro) (use c l live ty in auto)
    ultimately show ?thesis using c ty unfolding dr by (auto simp: ij)
  qed
qed

lemma asa_empty_inv:
  assumes inv: "asa_inv a"
  shows "\<exists>a'. asa_empty a = Inr a' \<and> asa_inv a' \<and> asa_type a' = asa_type a \<and> asa_cells a' = []"
proof (cases "asa_is_empty a")
  case True
  then show ?thesis using asa_invD(1) [OF inv] inv by (simp add: asa_empty_def asa_is_empty_def)
next
  case False
  let ?cs = "asa_cells a"
  have n: "asa_num a = int (length ?cs)" using asa_invD(1) [OF inv] .
  have mem: "asa_memory a = Buf ?cs" using asa_invD(3) [OF inv] asa_inv_null [OF inv] False
    by (auto simp: asa_is_empty_def)
  obtain t where ty: "asa_type a = Some t" using asa_invD(4) [OF inv] False by (auto simp: asa_is_empty_def)
  have d: "mem_destroy ?cs 0 (length ?cs) = Inr (replicate (length ?cs) Uninit)"
    using mem_destroy_live [of 0 "length ?cs" ?cs] asa_invD(2) [OF inv] by simp
  show ?thesis
    using False d ty n by (auto simp: asa_empty_def asa_struct_def mem intro!: asa_inv_intro)
qed

lemma asa_inv_buf:
  "asa_type a \<noteq> None \<Longrightarrow> list_all is_live cs \<Longrightarrow> n = int (length cs) \<Longrightarrow>
   asa_inv (a\<lparr>asa_memory := Buf cs, asa_num := n\<rparr>)"
  by (auto intro!: asa_inv_intro)

lemma asa_elems_cells: "asa_elems a = map (the \<circ> cell_val) (asa_cells a)"
  by (simp add: asa_elems_def)

lemma asa_step_refines:
  assumes inv: "asa_inv a" and ty: "asa_type a = Some t"
  shows "(case arr_spec t op (asa_elems a) of
            None \<Rightarrow> isl (asa_step t op a)
          | Some xs \<Rightarrow> \<exists>a'. asa_step t op a = Inr a' \<and> asa_inv a' \<and> asa_type a' = Some t \<and> asa_elems a' = xs)"
proof -
  let ?cs = "asa_cells a"
  have n: "asa_num a = int (length ?cs)" and live: "list_all is_live ?cs"
    using asa_invD(1,2) [OF inv] by auto
  have le: "length (asa_elems a) = length ?cs" by (simp add: asa_elems_def)
  show ?thesis
  proof (cases op)
    case (OpEmplace v)
    then show ?thesis using asa_emplace_inv [OF inv ty, of v] ty n live
      by (auto simp: asa_elems_def intro!: asa_inv_buf)
  next
    case (OpInsert v i)
    show ?thesis
    proof (cases "0 \<le> i \<and> i \<le> asa_num a")
      case True
      then show ?thesis using OpInsert asa_insert_inv [OF inv ty, of i v] ty n live le
        by (auto simp: asa_elems_def take_map drop_map intro!: asa_inv_buf)
    next
      case False
      then show ?thesis using OpInsert ty n le by (auto simp: asa_insert_def asa_check_type_def)
    qed
  next
    case (OpAddDefaulted k)
    show ?thesis
    proof (cases "0 < k")
      case True
      then show ?thesis using OpAddDefaulted asa_add_defaulted_inv [OF inv ty True] ty n live
        by (auto simp: asa_elems_def intro!: asa_inv_buf)
    next
      case False
      then show ?thesis using OpAddDefaulted ty
        by (simp add: asa_add_defaulted_def asa_add_uninitialized_def asa_struct_def)
    qed
  next
    case (OpAddFromBuffer v)
    then show ?thesis using asa_add_from_buffer_inv [OF inv ty, of v] ty n live
      by (auto simp: asa_elems_def intro!: asa_inv_buf)
  next
    case (OpInsertAtFromBuffer v i)
    show ?thesis
    proof (cases "0 \<le> i \<and> i \<le> asa_num a")
      case True
      then show ?thesis using OpInsertAtFromBuffer asa_insert_at_from_buffer_inv [OF inv ty, of i v] ty n live le
        by (auto simp: asa_elems_def take_map drop_map intro!: asa_inv_buf)
    next
      case False
      then show ?thesis using OpInsertAtFromBuffer ty n le
        by (auto simp: asa_insert_at_from_buffer_def asa_struct_def)
    qed
  next
    case (OpAppendFromBuffer vs)
    then show ?thesis using asa_append_from_buffer_inv [OF inv ty, of vs] inv ty n live
      by (auto simp: asa_elems_def intro!: asa_inv_buf)
  next
    case (OpRemoveAt i k)
    show ?thesis
    proof (cases "0 \<le> i \<and> i < asa_num a \<and> 0 < k")
      case True
      then show ?thesis using OpRemoveAt asa_remove_at_inv [OF inv, of i k] ty n le
        by (auto simp: asa_elems_def take_map drop_map)
    next
      case False
      then show ?thesis using OpRemoveAt ty n le
        by (auto simp: asa_remove_at_def asa_is_valid_index_def)
    qed
  next
    case OpEmpty
    then show ?thesis using asa_empty_inv [OF inv] ty by (auto simp: asa_elems_def)
  qed
qed



lemma asa_copy_inv:
  assumes inv: "asa_inv other"
  shows "\<exists>a'. asa_copy other = Inr a' \<and> asa_inv a' \<and> asa_type a' = asa_type other \<and>
              asa_cells a' = asa_cells other"
proof (cases "asa_is_empty other")
  case True
  then show ?thesis using asa_invD(1) [OF inv]
    by (auto simp: asa_copy_def asa_is_empty_def intro!: asa_inv_intro simp: asa_cells_def)
next
  case False
  let ?cs = "asa_cells other"
  have n: "asa_num other = int (length ?cs)" using asa_invD(1) [OF inv] .
  have mem: "asa_memory other = Buf ?cs" using asa_invD(3) [OF inv] asa_inv_null [OF inv] False
    by (auto simp: asa_is_empty_def)
  obtain t where ty: "asa_type other = Some t" using asa_invD(4) [OF inv] False by (auto simp: asa_is_empty_def)
  have live: "list_all is_live ?cs" using asa_invD(2) [OF inv] .
  have r: "read_vals ?cs 0 (length ?cs) = Inr (map (the \<circ> cell_val) ?cs)"
    using live by (simp add: read_vals_def)
  have lv: "map Live (map (the \<circ> cell_val) ?cs) = ?cs" using live by (rule live_vals)
  have ic: "init_and_copy t 0 (map (the \<circ> cell_val) ?cs) (mem_malloc (length ?cs)) = Inr ?cs"
    using mem_init_append [of "[]" "mem_malloc (length ?cs)" "ss_default t"]
          mem_copy_append [of "replicate (length ?cs) (Live (ss_default t))" "map (the \<circ> cell_val) ?cs" "[]"] lv
    by (simp add: init_and_copy_def mem_simps)
  show ?thesis
    using False n mem ty r ic live
    by (auto simp: asa_copy_def asa_struct_def buf_malloc_def intro!: asa_inv_intro)
qed

lemma cmp_cells_live:
  "list_all is_live cs \<Longrightarrow> list_all is_live ds \<Longrightarrow> length cs = length ds \<Longrightarrow>
   cmp_cells cs ds = Inr (map (the \<circ> cell_val) cs = map (the \<circ> cell_val) ds)"
proof (induction cs ds rule: cmp_cells.induct)
  case (1 x cs y ds)
  then show ?case by auto
qed auto

lemma asa_mem_nonempty:
  "asa_inv a \<Longrightarrow> asa_num a \<noteq> 0 \<Longrightarrow> asa_memory a = Buf (asa_cells a)"
  using asa_invD(3) asa_inv_null by blast

lemma asa_move_assign_store:
  assumes d: "asa_inv (st dst)"
  shows "\<exists>st'. asa_move_assign st dst src = Inr st' \<and>
               st' dst = (if dst = src then asa_new else st src) \<and> st' src = asa_new \<and>
               (\<forall>j. j \<noteq> dst \<and> j \<noteq> src \<longrightarrow> st' j = st j)"
  using asa_empty_inv [OF d] by (auto simp: asa_move_assign_def asa_move_def)

lemma construct_loop_range:
  assumes "m \<le> n" "n \<le> length cs" "\<forall>i. m \<le> i \<and> i < n \<longrightarrow> f i = Inr (g i)"
  shows "construct_loop f [m..<n] cs = Inr (take m cs @ map (\<lambda>i. Live (g i)) [m..<n] @ drop n cs)"
  using assms
proof (induction "n - m" arbitrary: m cs)
  case 0
  then show ?case by simp
next
  case (Suc d)
  then have mn: "m < n" by simp
  have up: "[m..<n] = m # [Suc m..<n]" using mn by (simp add: upt_conv_Cons)
  have ih: "construct_loop f [Suc m..<n] (cs[m := Live (g m)]) =
              Inr (take (Suc m) (cs[m := Live (g m)]) @ map (\<lambda>i. Live (g i)) [Suc m..<n] @ drop n (cs[m := Live (g m)]))"
    using Suc by (intro Suc.hyps) auto
  have "take (Suc m) (cs[m := Live (g m)]) = take m cs @ [Live (g m)]"
    using mn Suc.prems(2) by (simp add: take_Suc_conv_app_nth)
  moreover have "drop n (cs[m := Live (g m)]) = drop n cs" using mn by simp
  ultimately show ?case
    using ih mn Suc.prems up by (simp add: mem_init_one)
qed

lemma construct_loop_view_fault:
  "(\<forall>i\<in>set is. i < length cs) \<Longrightarrow> (\<exists>i\<in>set is. length vs \<le> i) \<Longrightarrow>
   construct_loop (view_at vs) is cs = Inl OutOfBounds"
proof (induction "is" arbitrary: cs)
  case (Cons i "is")
  show ?case
  proof (cases "length vs \<le> i")
    case True
    then show ?thesis by (simp add: view_at_def)
  next
    case False
    then have "\<exists>i\<in>set is. length vs \<le> i" using Cons.prems(2) by auto
    then show ?thesis
      using Cons.IH [of "cs[i := Live (vs ! i)]"] Cons.prems(1) False by (simp add: view_at_def mem_init_one)
  qed
qed simp

lemma asa_inv_no_uninit: "asa_inv a \<Longrightarrow> Uninit \<notin> set (asa_cells a)"
  using asa_invD(2) by (fastforce simp: list_all_iff)

text \<open>Shrinking: \<open>DestroyStruct(Memory + (Num - 1) * Size, NumElems - Num)\<close>
  destroys slot \<open>Num - 1\<close>, which the shrunk array keeps.\<close>

lemma set_num_shrink_cells:
  assumes inv: "asa_inv a" and k: "0 < k" "k < asa_num a"
  shows "\<exists>D. on_cells (\<lambda>cs. mem_destroy cs (k - 1) (nat (asa_num a - k))) (asa_memory a) = Inr (Buf D) \<and>
             length D = length (asa_cells a) \<and> D ! (nat k - 1) = Uninit"
proof -
  let ?cs = "asa_cells a" and ?j = "nat k - 1" and ?r = "nat (asa_num a - k)"
  have n: "asa_num a = int (length ?cs)" using asa_invD(1) [OF inv] .
  have mem: "asa_memory a = Buf ?cs" using asa_mem_nonempty [OF inv] k by simp
  have jr: "?j + ?r \<le> length ?cs" "?j < length ?cs" "0 < ?r" using k n by linarith+
  have km: "k - 1 = int ?j" using k by linarith
  define D where "D = take ?j ?cs @ replicate ?r Uninit @ drop (?j + ?r) ?cs"
  have d: "mem_destroy ?cs (int ?j) ?r = Inr D"
    unfolding D_def by (rule mem_destroy_live [OF jr(1) asa_invD(2) [OF inv]])
  have "on_cells (\<lambda>cs. mem_destroy cs (k - 1) ?r) (asa_memory a) = Inr (Buf D)"
    unfolding km mem using d by simp
  moreover have "length D = length ?cs" using jr(1) by (simp add: D_def)
  moreover have "D ! ?j = Uninit" using jr(2,3) by (simp add: D_def nth_append)
  ultimately show ?thesis by blast
qed

text \<open>Growing: \<open>InitializeStruct(Memory + (NumElems - 1) * Size, Num - NumElems)\<close>
  before the buffer is grown: it succeeds only when growing by one, and then
  re-initializes the last element and leaves the new slot unconstructed.\<close>

lemma set_num_grow_cells:
  assumes inv: "asa_inv a" and k: "asa_num a < k"
    and r: "on_cells (\<lambda>cs. mem_init cs (asa_num a - 1) (nat (k - asa_num a)) d) (asa_memory a) = Inr b"
  shows "k = asa_num a + 1 \<and> 0 < asa_num a \<and> b = Buf ((asa_cells a)[nat (asa_num a) - 1 := Live d])"
proof -
  let ?cs = "asa_cells a"
  have n: "asa_num a = int (length ?cs)" using asa_invD(1) [OF inv] .
  have pos: "0 < asa_num a"
  proof (rule ccontr)
    assume "\<not> 0 < asa_num a"
    then have z: "asa_num a = 0" "?cs = []" using n by auto
    have "asa_memory a = NullPtr \<or> asa_memory a = Buf []" using asa_invD(3) [OF inv] z(2) by simp
    then have "on_cells (\<lambda>cs. mem_init cs (asa_num a - 1) (nat (k - asa_num a)) d) (asa_memory a) = Inl OutOfBounds"
      by (elim disjE) (simp_all add: z(1) mem_init_before_start)
    with r show False by simp
  qed
  have mem: "asa_memory a = Buf ?cs" using asa_mem_nonempty [OF inv] pos by simp
  have ib: "in_buf ?cs (asa_num a - 1) (nat (k - asa_num a))"
  proof (rule ccontr)
    assume "\<not> ?thesis"
    then have "mem_init ?cs (asa_num a - 1) (nat (k - asa_num a)) d = Inl OutOfBounds" by (simp add: mem_init_def)
    with r show False by (simp add: mem)
  qed
  have k1: "k = asa_num a + 1"
  proof -
    have "int (nat (asa_num a - 1) + nat (k - asa_num a)) \<le> int (length ?cs)" using ib by (simp only: in_buf_def of_nat_le_iff)
    then have "(asa_num a - 1) + (k - asa_num a) \<le> asa_num a" using pos k n by (simp only: of_nat_add)
    then show ?thesis using k by linarith
  qed
  have l1: "1 \<le> length ?cs" using pos unfolding n by linarith
  have m: "mem_init ?cs (int (length ?cs - 1)) (Suc 0) d = Inr (?cs[length ?cs - 1 := Live d])"
    by (rule mem_init_one) (use l1 in simp)
  have e: "asa_num a - 1 = int (length ?cs - 1)" "nat (k - asa_num a) = Suc 0" "nat (asa_num a) - 1 = length ?cs - 1"
    using n k1 l1 by (simp_all add: of_nat_diff)
  have "on_cells (\<lambda>cs. mem_init cs (asa_num a - 1) (nat (k - asa_num a)) d) (asa_memory a) =
          Inr (Buf (?cs[length ?cs - 1 := Live d]))"
    unfolding e(1,2) mem using m by simp
  then show ?thesis using r k1 pos e(3) by simp
qed

text \<open>The placement-new loop over a whole view constructs its elements in order.\<close>

lemma construct_view_all:
  "construct_loop (view_at vs) [0..<length vs] (replicate (length vs) Uninit) = Inr (map Live vs)"
proof -
  let ?L = "length vs"
  have h: "\<forall>i. 0 \<le> i \<and> i < ?L \<longrightarrow> view_at vs i = Inr (vs ! i)" by (simp add: view_at_def)
  have "construct_loop (view_at vs) [0..<?L] (replicate ?L Uninit) =
          Inr (take 0 (replicate ?L Uninit) @ map (\<lambda>i. Live (vs ! i)) [0..<?L] @ drop ?L (replicate ?L Uninit))"
    by (rule construct_loop_range [OF _ _ h]) simp_all
  then have f1: "construct_loop (view_at vs) [0..<?L] (replicate ?L Uninit) = Inr (map (\<lambda>i. Live (vs ! i)) [0..<?L])"
    by (simp only: take_0 drop_replicate diff_self_eq_0 replicate_0 append_Nil append_Nil2)
  have f2: "map (\<lambda>i. Live (vs ! i)) [0..<?L] = map Live vs" by (rule nth_equalityI) simp_all
  show ?thesis using f1 unfolding f2 .
qed

lemma ex_arr3_inv: "asa_inv ex_arr3" "asa_type ex_arr3 = Some ex_elem"
  by (simp_all add: ex_arr3_def asa_inv_def)

section \<open>Properties\<close>

text \<open>A \<open>SetNum\<close> to a new count that returns passed its count and type checks
  and ran one destroying or initializing pass before the reallocation.\<close>

lemma asa_set_num_Inr_unfold:
  assumes k: "k \<noteq> asa_num a" and r: "asa_set_num k a = Inr a'"
  shows "\<exists>t. 0 \<le> k \<and> asa_type a = Some t \<and> asa_set_num k a =
     chk_bind (if k < asa_num a then on_cells (\<lambda>cs. mem_destroy cs (k - 1) (nat (asa_num a - k))) (asa_memory a)
               else on_cells (\<lambda>cs. mem_init cs (asa_num a - 1) (nat (k - asa_num a)) (ss_default t)) (asa_memory a))
       (\<lambda>b. chk_bind (free_or_realloc b k) (\<lambda>b'. Inr (a\<lparr>asa_memory := b', asa_num := k\<rparr>)))"
proof -
  have k0: "0 \<le> k"
  proof (rule ccontr)
    assume "\<not> 0 \<le> k"
    then have "asa_set_num k a = Inl BadCount" by (simp add: asa_set_num_def)
    with r show False by simp
  qed
  have "asa_type a \<noteq> None"
  proof
    assume "asa_type a = None"
    then have "asa_set_num k a = Inl TypeUninitialized" using k k0 by (simp add: asa_set_num_def asa_struct_def)
    with r show False by simp
  qed
  then obtain t where ty: "asa_type a = Some t" by blast
  then show ?thesis using k k0 by (simp add: asa_set_num_def asa_struct_def)
qed

text \<open>Claim C5: Refinement of the DynamicValueArray contract: started on a well-formed typed array, any sequence of Emplace, Insert, AddDefaulted, AddFromBuffer, InsertAtFromBuffer, AppendFromBuffer, RemoveAt and Empty calls faults exactly when the list specification rejects an operation, and otherwise ends in a well-formed array of the same type whose values are those the specification computes.\<close>

theorem asa_run_refines:
  assumes "asa_inv a" "asa_type a = Some t"
  shows "(case arr_run t ops (asa_elems a) of
            None \<Rightarrow> isl (asa_run t ops a)
          | Some xs \<Rightarrow> \<exists>a'. asa_run t ops a = Inr a' \<and> asa_inv a' \<and> asa_type a' = Some t \<and> asa_elems a' = xs)"
  using assms
proof (induction ops arbitrary: a)
  case Nil
  then show ?case by simp
next
  case (Cons op ops)
  have st: "case arr_spec t op (asa_elems a) of
              None \<Rightarrow> isl (asa_step t op a)
            | Some xs \<Rightarrow> \<exists>a'. asa_step t op a = Inr a' \<and> asa_inv a' \<and> asa_type a' = Some t \<and> asa_elems a' = xs"
    by (rule asa_step_refines [OF Cons.prems])
  show ?case
  proof (cases "arr_spec t op (asa_elems a)")
    case None
    then show ?thesis using st by (auto simp: isl_def chk_bind_def split: sum.splits)
  next
    case (Some ys)
    then obtain a1 where a1: "asa_step t op a = Inr a1" "asa_inv a1" "asa_type a1 = Some t" "asa_elems a1 = ys"
      using st by auto
    have run: "asa_run t (op # ops) a = asa_run t ops a1" using a1(1) by simp
    show ?thesis unfolding run using Cons.IH [OF a1(2,3)] Some a1(4) by simp
  qed
qed

theorem asa_run_refines_witness:
  "\<exists>a'. asa_run ex_elem [OpEmplace 4, OpRemoveAt 0 2, OpInsert 9 1] ex_arr3 = Inr a' \<and> asa_inv a' \<and>
        asa_elems a' = [3, 9, 4]"
proof -
  have "arr_run ex_elem [OpEmplace 4, OpRemoveAt 0 2, OpInsert 9 1] (asa_elems ex_arr3) = Some [3, 9, 4]"
    by (simp add: ex_arr3_def asa_elems_def asa_cells_def)
  then show ?thesis
    using asa_run_refines [OF ex_arr3_inv, of "[OpEmplace 4, OpRemoveAt 0 2, OpInsert 9 1]"] by auto
qed

text \<open>Claim C9: SetNum never produces a well-formed array: for any new count other than the current one it either faults or leaves an unconstructed slot inside the array (shrinking destroys from slot Num-1, growing initializes from slot NumElems-1 before reallocating).\<close>

theorem asa_set_num_breaks_invariant:
  assumes inv: "asa_inv a" and k: "k \<noteq> asa_num a" and r: "asa_set_num k a = Inr a'"
  shows "\<not> asa_inv a'"
proof -
  let ?cs = "asa_cells a"
  have n: "asa_num a = int (length ?cs)" using asa_invD(1) [OF inv] .
  obtain t where k0: "0 \<le> k" and ty: "asa_type a = Some t"
    and unf: "asa_set_num k a =
     chk_bind (if k < asa_num a then on_cells (\<lambda>cs. mem_destroy cs (k - 1) (nat (asa_num a - k))) (asa_memory a)
               else on_cells (\<lambda>cs. mem_init cs (asa_num a - 1) (nat (k - asa_num a)) (ss_default t)) (asa_memory a))
       (\<lambda>b. chk_bind (free_or_realloc b k) (\<lambda>b'. Inr (a\<lparr>asa_memory := b', asa_num := k\<rparr>)))"
    using asa_set_num_Inr_unfold [OF k r] by blast
  have "Uninit \<in> set (asa_cells a')"
  proof (cases "k < asa_num a")
    case True
    show ?thesis
    proof (cases "k = 0")
      case True
      have mem: "asa_memory a = Buf ?cs" using asa_mem_nonempty [OF inv] \<open>k < asa_num a\<close> True by simp
      have "asa_set_num k a = Inl OutOfBounds"
        unfolding unf using \<open>k < asa_num a\<close> True by (simp add: mem mem_destroy_before_start)
      with r show ?thesis by simp
    next
      case False
      then obtain D where D: "on_cells (\<lambda>cs. mem_destroy cs (k - 1) (nat (asa_num a - k))) (asa_memory a) = Inr (Buf D)"
          "length D = length ?cs" "D ! (nat k - 1) = Uninit"
        using set_num_shrink_cells [OF inv _ True] k0 by auto
      have "asa_set_num k a = Inr (a\<lparr>asa_memory := Buf (take (nat k) D), asa_num := k\<rparr>)"
        unfolding unf using True False D(1,2) n k0 by (simp add: free_or_realloc_def mem_realloc_shrink)
      then have "asa_cells a' = take (nat k) D" using r by simp
      moreover have l: "nat k - 1 < length (take (nat k) D)" using True False k0 D(2) n by auto
      moreover have "take (nat k) D ! (nat k - 1) = Uninit" using D(3) False k0 by simp
      ultimately show ?thesis using nth_mem [OF l] by simp
    qed
  next
    case False
    then have gt: "asa_num a < k" using k by simp
    obtain b where b: "on_cells (\<lambda>cs. mem_init cs (asa_num a - 1) (nat (k - asa_num a)) (ss_default t)) (asa_memory a) = Inr b"
      using r unf False by (auto simp: chk_bind_eq_Inr)
    have g: "k = asa_num a + 1" "0 < asa_num a" "b = Buf (?cs[nat (asa_num a) - 1 := Live (ss_default t)])"
      using set_num_grow_cells [OF inv gt b] by auto
    have s: "nat (int (length ?cs) + 1) - length ?cs = 1" by simp
    have "asa_cells a' = ?cs[nat (asa_num a) - 1 := Live (ss_default t)] @ [Uninit]"
      using r unf False b g n by (simp add: free_or_realloc_def mem_realloc_grow s)
    then show ?thesis by simp
  qed
  then show ?thesis using asa_inv_no_uninit by blast
qed

theorem asa_set_num_breaks_invariant_witness:
  "asa_set_num 2 ex_arr3 = Inr (projr (asa_set_num 2 ex_arr3)) \<and> \<not> asa_inv (projr (asa_set_num 2 ex_arr3))"
proof -
  have r: "asa_set_num 2 ex_arr3 = Inr (projr (asa_set_num 2 ex_arr3))" by code_simp
  have "(2::int) \<noteq> asa_num ex_arr3" by (simp add: ex_arr3_def)
  from asa_set_num_breaks_invariant [OF ex_arr3_inv(1) this r] r show ?thesis by simp
qed

text \<open>Claim C10: Copy assignment runs Empty() before copying from Other: between distinct well-formed arrays it copies the values and type and touches nothing else, but a self assignment a = a leaves a empty.\<close>

theorem asa_assign_aliasing:
  assumes d: "asa_inv (st dst)" and s: "asa_inv (st src)"
  shows "\<exists>st'. asa_assign st dst src = Inr st' \<and> asa_inv (st' dst) \<and>
               asa_type (st' dst) = asa_type (st src) \<and>
               asa_elems (st' dst) = (if dst = src then [] else asa_elems (st src)) \<and>
               (\<forall>j. j \<noteq> dst \<longrightarrow> st' j = st j)"
proof -
  obtain a0 where a0: "asa_empty (st dst) = Inr a0" "asa_inv a0" "asa_type a0 = asa_type (st dst)" "asa_cells a0 = []"
    using asa_empty_inv [OF d] by blast
  let ?st1 = "st(dst := a0)"
  have s1: "asa_inv (?st1 src)" using a0(2) s by simp
  obtain a1 where a1: "asa_copy (?st1 src) = Inr a1" "asa_inv a1" "asa_type a1 = asa_type (?st1 src)"
      "asa_cells a1 = asa_cells (?st1 src)"
    using asa_copy_inv [OF s1] by blast
  show ?thesis
    using a0 a1 by (auto simp: asa_assign_def asa_elems_def)
qed

theorem asa_assign_aliasing_witness:
  "\<exists>st'. asa_assign (\<lambda>_. ex_arr3) 0 0 = Inr st' \<and> asa_elems (st' 0) = []"
  using asa_assign_aliasing [where st = "\<lambda>_. ex_arr3" and dst = 0 and src = 0] ex_arr3_inv(1) by auto

text \<open>Claim C15: operator== on well-formed arrays never faults and holds exactly when the values are equal and the types are equal or both arrays are empty: two empty arrays of different types compare equal.\<close>

theorem asa_eq_correct:
  assumes a: "asa_inv a" and b: "asa_inv b"
  shows "asa_eq a b = Inr (asa_elems a = asa_elems b \<and> (asa_type a = asa_type b \<or> asa_elems a = []))"
proof -
  have na: "asa_num a = int (length (asa_elems a))" and nb: "asa_num b = int (length (asa_elems b))"
    using asa_invD(1) [OF a] asa_invD(1) [OF b] by (auto simp: asa_elems_def)
  show ?thesis
  proof (cases "asa_num a \<noteq> asa_num b \<or> asa_num a = 0")
    case True
    then show ?thesis using na nb by (auto simp: asa_eq_def asa_is_empty_def)
  next
    case False
    obtain t where ty: "asa_type a = Some t" using asa_invD(4) [OF a] False by fastforce
    have ma: "asa_memory a = Buf (asa_cells a)" and mb: "asa_memory b = Buf (asa_cells b)"
      using asa_mem_nonempty [OF a] asa_mem_nonempty [OF b] False by auto
    have len: "length (asa_cells a) = nat (asa_num a)" "length (asa_cells b) = nat (asa_num a)"
      using asa_invD(1) [OF a] asa_invD(1) [OF b] False by auto
    have c: "cmp_cells (asa_cells a) (asa_cells b) = Inr (asa_elems a = asa_elems b)"
      using cmp_cells_live [OF asa_invD(2) [OF a] asa_invD(2) [OF b]] len by (simp add: asa_elems_def)
    have ne: "asa_elems a \<noteq> []" using na False by auto
    show ?thesis
    proof (cases "asa_type a = asa_type b")
      case True
      then have tyb: "asa_type b = Some t" using ty by simp
      show ?thesis using True False ty tyb ma mb len c by (simp add: asa_eq_def asa_is_empty_def asa_struct_def)
    next
      case ft: False
      then show ?thesis using False ne by (simp add: asa_eq_def asa_is_empty_def)
    qed
  qed
qed

theorem asa_eq_correct_witness:
  "asa_eq (asa_make ex_elem) (asa_make ex_elem2) = Inr True \<and> ex_elem \<noteq> ex_elem2"
proof -
  have "asa_inv (asa_make ex_elem)" "asa_inv (asa_make ex_elem2)" by (simp_all add: asa_make_def asa_inv_def)
  from asa_eq_correct [OF this] show ?thesis
    by (simp add: asa_make_def asa_elems_def asa_cells_def ex_elem_def ex_elem2_def)
qed

text \<open>Claim C16: Append(ArrayView) reads ArrayView[i] for i from the old count: on an empty array it appends the view, on a non-empty array with a non-empty view it always faults with an out-of-range view read.\<close>

theorem asa_append_view_offset:
  assumes inv: "asa_inv a" and ty: "asa_type a = Some t" and ne: "vs \<noteq> []"
  shows "asa_append_view t vs a =
           (if asa_num a = 0 then Inr (a\<lparr>asa_memory := Buf (map Live vs), asa_num := int (length vs)\<rparr>)
            else Inl OutOfBounds)"
proof -
  let ?cs = "asa_cells a" and ?L = "length vs"
  have n: "asa_num a = int (length ?cs)" using asa_invD(1) [OF inv] .
  have ok: "asa_memory a = NullPtr \<Longrightarrow> asa_num a + int ?L > 0" using asa_inv_null [OF inv] ne by simp
  have g: "grow_buffer (asa_num a + int ?L > 0) (asa_memory a) (asa_num a + int ?L) = Inr (Buf (?cs @ replicate ?L Uninit))"
    using grow_buffer_inv [OF inv _ ok] by simp
  have r: "[nat (asa_num a)..<nat (asa_num a + int ?L)] = [length ?cs..<length ?cs + ?L]"
    using n by (simp flip: of_nat_add)
  have unf: "asa_append_view t vs a =
               chk_bind (construct_loop (view_at vs) [length ?cs..<length ?cs + ?L] (?cs @ replicate ?L Uninit))
                 (\<lambda>cs'. Inr (a\<lparr>asa_memory := Buf cs', asa_num := asa_num a + int ?L\<rparr>))"
    using ty ne g r by (simp add: asa_append_view_def asa_check_type_def Let_def)
  show ?thesis
  proof (cases "asa_num a = 0")
    case True
    then have e: "?cs = []" using n by simp
    have c: "construct_loop (view_at vs) [0..<?L] (replicate ?L Uninit) = Inr (map Live vs)"
      by (rule construct_view_all)
    have "asa_append_view t vs a =
            chk_bind (construct_loop (view_at vs) [0..<?L] (replicate ?L Uninit))
              (\<lambda>cs'. Inr (a\<lparr>asa_memory := Buf cs', asa_num := asa_num a + int ?L\<rparr>))"
      unfolding unf e by simp
    then show ?thesis unfolding c using True by simp
  next
    case False
    have "\<exists>i\<in>set [length ?cs..<length ?cs + ?L]. ?L \<le> i"
    proof -
      have p: "0 < length ?cs" "0 < ?L" using False n ne by auto
      have "?L \<le> length ?cs + ?L - 1" using p by linarith
      moreover have "length ?cs + ?L - 1 \<in> set [length ?cs..<length ?cs + ?L]"
        unfolding set_upt atLeastLessThan_iff using p by linarith
      ultimately show ?thesis by blast
    qed
    then have "construct_loop (view_at vs) [length ?cs..<length ?cs + ?L] (?cs @ replicate ?L Uninit) = Inl OutOfBounds"
      by (intro construct_loop_view_fault) auto
    then show ?thesis using unf False by simp
  qed
qed

theorem asa_append_view_offset_witness:
  "asa_append_view ex_elem [5] ex_arr3 = Inl OutOfBounds"
  using asa_append_view_offset [OF ex_arr3_inv, of "[5]"] by (simp add: ex_arr3_def)

text \<open>Claim C34: Resize of a non-empty well-formed array to another positive count calls Malloc instead of Realloc: the array gets a fresh buffer in which no slot is constructed, and every element is lost.\<close>

theorem asa_resize_loses_elements:
  assumes inv: "asa_inv a" and n: "0 < asa_num a" and k: "0 < k" "k \<noteq> asa_num a"
  shows "asa_resize k a = Inr (a\<lparr>asa_memory := Buf (replicate (nat k) Uninit), asa_num := k\<rparr>)"
proof -
  have mem: "asa_memory a = Buf (asa_cells a)" using asa_mem_nonempty [OF inv] n by simp
  obtain t where "asa_type a = Some t" using asa_invD(4) [OF inv] n by fastforce
  then show ?thesis using k mem by (simp add: asa_resize_def asa_struct_def buf_malloc_def mem_malloc_def)
qed

theorem asa_resize_loses_elements_witness:
  "asa_resize 2 ex_arr3 = Inr (ex_arr3\<lparr>asa_memory := Buf [Uninit, Uninit], asa_num := 2\<rparr>)"
proof -
  have "0 < asa_num ex_arr3" "(0::int) < 2" "(2::int) \<noteq> asa_num ex_arr3" by (simp_all add: ex_arr3_def)
  from asa_resize_loses_elements [OF ex_arr3_inv(1) this] show ?thesis by (simp add: numeral_2_eq_2)
qed

text \<open>Claim C35: Get<T>(Index) on a well-formed array of type T is bounds-checked: a valid index reads the live slot holding the index-th value, any other index faults.\<close>

theorem asa_get_bounds:
  assumes inv: "asa_inv a" and ty: "asa_type a = Some t"
  shows "asa_get t i a = (if 0 \<le> i \<and> i < asa_num a then Inr (Live (asa_elems a ! nat i)) else Inl InvalidIndex)"
proof (cases "0 \<le> i \<and> i < asa_num a")
  case True
  let ?cs = "asa_cells a"
  have n: "asa_num a = int (length ?cs)" using asa_invD(1) [OF inv] .
  have mem: "asa_memory a = Buf ?cs" using asa_mem_nonempty [OF inv] True by auto
  have l: "nat i < length ?cs" using True n by linarith
  have "?cs ! nat i = Live (asa_elems a ! nat i)"
    using l asa_invD(2) [OF inv] nth_mem [OF l] by (cases "?cs ! nat i") (auto simp: asa_elems_def list_all_iff)
  then show ?thesis using True ty mem l by (simp add: asa_get_def asa_is_valid_index_def)
next
  case False
  then show ?thesis using ty by (auto simp: asa_get_def asa_is_valid_index_def)
qed

theorem asa_get_bounds_witness:
  "asa_get ex_elem 1 ex_arr3 = Inr (Live 2) \<and> asa_get ex_elem 3 ex_arr3 = Inl InvalidIndex"
  using asa_get_bounds [OF ex_arr3_inv, of 1] asa_get_bounds [OF ex_arr3_inv, of 3]
  by (simp add: ex_arr3_def asa_elems_def asa_cells_def)

text \<open>Make<T>(ArrayView) followed by ForEach<T> gives back the view: the array is well formed, of type T, and iterates over exactly the given values.\<close>

theorem asa_make_view_roundtrip:
  "\<exists>a. asa_make_view t vs = Inr a \<and> asa_inv a \<and> asa_type a = Some t \<and> asa_elems a = vs \<and>
       asa_for_each t a = Inr (map Live vs)"
proof (cases "vs = []")
  case True
  then show ?thesis by (simp add: asa_make_view_def asa_inv_def asa_elems_def asa_for_each_def asa_cells_def)
next
  case False
  let ?L = "length vs"
  have c: "construct_loop (view_at vs) [0..<?L] (mem_malloc ?L) = Inr (map Live vs)"
    using construct_view_all [of vs] by (simp add: mem_malloc_def)
  let ?a = "\<lparr>asa_memory = Buf (map Live vs), asa_type = Some t, asa_num = int ?L\<rparr>"
  have "asa_make_view t vs = Inr ?a" using False c by (simp add: asa_make_view_def buf_malloc_def)
  moreover have "asa_inv ?a" by (simp add: asa_inv_def)
  moreover have "asa_elems ?a = vs" by (simp add: asa_elems_def)
  moreover have "asa_for_each t ?a = Inr (map Live vs)" by (simp add: asa_for_each_def)
  moreover have "asa_type ?a = Some t" by simp
  ultimately show ?thesis by blast
qed



text \<open>The constructor from a copy with count 0 leaves Memory indeterminate: the array is not well formed and the next Emplace reallocates the indeterminate pointer.\<close>

theorem asa_from_copy_zero_dangling:
  "asa_from_copy (Some t) (Some vs) 0 = Inr \<lparr>asa_memory = WildPtr, asa_type = Some t, asa_num = 0\<rparr> \<and>
   \<not> asa_inv \<lparr>asa_memory = WildPtr, asa_type = Some t, asa_num = 0\<rparr> \<and>
   asa_emplace t v \<lparr>asa_memory = WildPtr, asa_type = Some t, asa_num = 0\<rparr> = Inl BadPointer"
  by (simp add: asa_from_copy_def asa_inv_def asa_emplace_def asa_check_type_def)

end
