(* ===== verification/AnyStructArrayBP.thy ===== *)
theory AnyStructArrayBP
  imports AnyStructArray
begin

text \<open>
  The Blueprint thunks of \<open>Types/AnyStructArrayBPUtils.h\<close>
  (\<open>UAnyStructArrayUtils\<close>).  Each \<open>execX\<close> reads its pins from the VM stack
  (\<open>Stack.StepCompiledIn\<close>), tests them with \<open>ANYSTRUCT_TEST_VALUE_COMPATIBILITY\<close>
  or \<open>ANYSTRUCT_TEST_ARRAY_COMPATIBILITY\<close>, and forwards to an
  \<open>FAnyStructArray\<close> method.  A failed test sets \<open>Stack.bArrayContextFailed\<close>
  and returns: the thunk's result is \<open>Inr None\<close>; a crash or undefined
  behaviour is a fault (\<open>Inl\<close>).  A struct pin is the value at
  \<open>MostRecentPropertyAddress\<close> (\<open>None\<close> when null) and the \<open>Struct\<close> of its
  \<open>FStructProperty\<close> (\<open>None\<close> when the property is missing or not a struct
  property); an array pin likewise holds the elements of the \<open>TArray\<close> and
  the struct of its inner property.  \<open>CopyScriptStruct\<close> by the array's type
  moves \<open>GetStructureSize()\<close> bytes of that type: into or out of a pin of a
  smaller struct it runs past the pin, a fault here.
\<close>

section \<open>Definitions\<close>

record 'v bp_struct_pin =
  pin_value :: "'v option"
  pin_struct :: "'v script_struct option"

record 'v bp_array_pin =
  arr_values :: "'v list option"
  arr_inner :: "'v script_struct option"

text \<open>\<open>ANYSTRUCT_TEST_VALUE_COMPATIBILITY\<close>: a value and a struct property, a
  typed array, and the array's type a child of the pin's struct.\<close>

definition bp_value_compatible :: "'v any_struct_array \<Rightarrow> 'v bp_struct_pin \<Rightarrow> bool" where
  "bp_value_compatible a p =
     (case (pin_value p, pin_struct p, asa_type a) of
        (Some _, Some s, Some t) \<Rightarrow> is_child_of t s
      | _ \<Rightarrow> False)"

text \<open>\<open>ANYSTRUCT_TEST_ARRAY_COMPATIBILITY\<close>: an array of a struct type, then
  \<open>Any.GetType()->IsChildOf(Inner)\<close>, which dereferences the array's type
  without testing it.\<close>

definition bp_array_compatible :: "'v any_struct_array \<Rightarrow> 'v bp_array_pin \<Rightarrow> bool checked" where
  "bp_array_compatible a p =
     (case (arr_values p, arr_inner p) of
        (Some _, Some s) \<Rightarrow> (case asa_type a of None \<Rightarrow> Inl NullType | Some t \<Rightarrow> Inr (is_child_of t s))
      | _ \<Rightarrow> Inr False)"

text \<open>\<open>execMakeAnyStructArray\<close>: the compatibility test runs on the return
  value \<open>Any\<close> before it is constructed, then \<open>new (&Any)
  FAnyStructArray(Inner, ArrayHelper.GetRawPtr(), ArrayHelper.Num())\<close>.\<close>

definition bp_make :: "'v any_struct_array \<Rightarrow> 'v bp_array_pin \<Rightarrow> 'v any_struct_array option checked" where
  "bp_make ret p =
     chk_bind (bp_array_compatible ret p) (\<lambda>ok.
       if \<not> ok then Inr None
       else (case arr_values p of
               None \<Rightarrow> Inr None
             | Some vs \<Rightarrow> chk_bind (asa_from_copy (arr_inner p) (Some vs) (int (length vs))) (\<lambda>a. Inr (Some a))))"

text \<open>\<open>execAddAnyStructArray\<close>: \<open>Any.AddFromBuffer(Value)\<close>, which copies the
  array type's size from the pin.\<close>

definition bp_add :: "'v any_struct_array \<Rightarrow> 'v bp_struct_pin \<Rightarrow> ('v any_struct_array \<times> int) option checked" where
  "bp_add a p =
     (if \<not> bp_value_compatible a p then Inr None
      else case (pin_value p, pin_struct p, asa_type a) of
        (Some v, Some s, Some t) \<Rightarrow>
          if ss_size s < ss_size t then Inl OutOfBounds
          else chk_bind (asa_add_from_buffer (Some [v]) a) (\<lambda>r. Inr (Some r))
      | _ \<Rightarrow> Inr None)"

text \<open>\<open>execAppendAnyStructArray\<close> binds \<open>Any\<close> to \<open>*Stack.MostRecentProperty\<close>,
  the \<open>FProperty\<close> describing the pin, not the array at its address: once the
  array pin passes its tests, \<open>Any.GetType()\<close> and \<open>Any.AppendFromBuffer\<close>
  use an \<open>FProperty\<close> object as an \<open>FAnyStructArray\<close>, which is undefined.
  The array argument is never reached.\<close>

definition bp_append :: "'v any_struct_array \<Rightarrow> 'v bp_array_pin \<Rightarrow> 'v any_struct_array option checked" where
  "bp_append a p =
     (case (arr_values p, arr_inner p) of
        (Some _, Some _) \<Rightarrow> Inl BadPointer
      | _ \<Rightarrow> Inr None)"

text \<open>\<open>execGetAnyStructArray\<close>: after the value test, an invalid index fails
  the context; otherwise \<open>Any.GetType()->CopyScriptStruct(Value,
  Any.GetRawPtr(Index))\<close> writes the element, by the array type's size, into
  the pin.\<close>

definition bp_get :: "'v any_struct_array \<Rightarrow> int \<Rightarrow> 'v bp_struct_pin \<Rightarrow> 'v bp_struct_pin option checked" where
  "bp_get a i p =
     (if \<not> bp_value_compatible a p then Inr None
      else if \<not> asa_is_valid_index i a then Inr None
      else case (pin_struct p, asa_type a) of
        (Some s, Some t) \<Rightarrow>
          chk_bind (asa_get_raw_ptr i a) (\<lambda>j.
            chk_bind (buf_cells (asa_memory a)) (\<lambda>cs.
              chk_bind (read_vals cs (nat j) 1) (\<lambda>vs.
                if ss_size s < ss_size t then Inl OutOfBounds
                else Inr (Some (p\<lparr>pin_value := Some (hd vs)\<rparr>)))))
      | _ \<Rightarrow> Inr None)"

text \<open>\<open>execNumAnyStructArray\<close>.\<close>

definition bp_num :: "'v any_struct_array \<Rightarrow> int" where
  "bp_num a = asa_num a"

section \<open>Fixtures\<close>

text \<open>A 12-byte child of the 4-byte \<open>ex_elem\<close>, an array of one such element,
  and a Blueprint pin of the parent type.\<close>

definition ex_child :: "nat script_struct" where
  "ex_child = \<lparr>ss_uid = 11, ss_size = 12, ss_align = 4, ss_default = 0, ss_super = [7]\<rparr>"

definition ex_child_arr :: "nat any_struct_array" where
  "ex_child_arr = \<lparr>asa_memory = Buf [Live 5], asa_type = Some ex_child, asa_num = 1\<rparr>"

definition ex_parent_pin :: "nat bp_struct_pin" where
  "ex_parent_pin = \<lparr>pin_value = Some 0, pin_struct = Some ex_elem\<rparr>"

section \<open>Lemmas\<close>

lemma bp_value_compatible_same:
  "asa_type a = Some t \<Longrightarrow> pin_struct p = Some t \<Longrightarrow> pin_value p = Some v \<Longrightarrow> bp_value_compatible a p"
  by (simp add: bp_value_compatible_def is_child_of_def)

text \<open>Reading one slot of a well-formed array.\<close>

lemma read_vals_one:
  assumes inv: "asa_inv a" and i: "0 \<le> i" "i < asa_num a"
  shows "read_vals (asa_cells a) (nat i) 1 = Inr [asa_elems a ! nat i]"
proof -
  have l: "nat i < length (asa_cells a)" using asa_invD(1) [OF inv] i by simp
  have "is_live (asa_cells a ! nat i)" using asa_invD(2) [OF inv] l by (simp add: list_all_length)
  moreover have "drop (nat i) (asa_cells a) = asa_cells a ! nat i # drop (Suc (nat i)) (asa_cells a)"
    using l by (simp add: Cons_nth_drop_Suc)
  ultimately show ?thesis using l by (simp add: read_vals_def asa_elems_cells)
qed

lemma buf_cells_inv: "asa_inv a \<Longrightarrow> buf_cells (asa_memory a) = Inr (asa_cells a)"
  using asa_invD(3) [of a] asa_inv_null [of a] by auto

section \<open>Properties\<close>

text \<open>Claim C25: Get (AnyStructArray) on a well-formed array and a pin of the
  array's own type fails the Blueprint context (no crash) for an invalid index,
  and otherwise writes the element at the index into the pin.\<close>

theorem bp_get_correct:
  assumes inv: "asa_inv a" and ty: "asa_type a = Some t"
    and ps: "pin_struct p = Some t" and pv: "pin_value p = Some v"
  shows "bp_get a i p =
    (if 0 \<le> i \<and> i < asa_num a then Inr (Some (p\<lparr>pin_value := Some (asa_elems a ! nat i)\<rparr>)) else Inr None)"
proof (cases "0 \<le> i \<and> i < asa_num a")
  case True
  have "asa_get_raw_ptr i a = Inr i"
    using True ty by (simp add: asa_get_raw_ptr_def asa_is_valid_index_def asa_struct_def)
  then show ?thesis
    using True ty ps bp_value_compatible_same [OF ty ps pv] read_vals_one [OF inv] buf_cells_inv [OF inv]
    by (simp add: bp_get_def asa_is_valid_index_def)
next
  case False
  then show ?thesis
    using bp_value_compatible_same [OF ty ps pv] by (auto simp: bp_get_def asa_is_valid_index_def)
qed

theorem bp_get_correct_witness:
  "bp_get ex_arr3 1 \<lparr>pin_value = Some 0, pin_struct = Some ex_elem\<rparr> =
     Inr (Some \<lparr>pin_value = Some 2, pin_struct = Some ex_elem\<rparr>) \<and>
   bp_get ex_arr3 3 \<lparr>pin_value = Some 0, pin_struct = Some ex_elem\<rparr> = Inr None"
proof -
  note g = bp_get_correct [OF ex_arr3_inv, of "\<lparr>pin_value = Some 0, pin_struct = Some ex_elem\<rparr>" 0]
  have "asa_elems ex_arr3 = [1, 2, 3]" by (simp add: ex_arr3_def asa_elems_def)
  moreover have "asa_num ex_arr3 = 3" by (simp add: ex_arr3_def)
  ultimately show ?thesis using g [of 1] g [of 3] by simp
qed

text \<open>Claim C6: Add (AnyStructArray) with a pin of the array's own type
  refines the contract's add: it returns the old count as the index and the
  array stays well formed with the pin's value appended.\<close>

theorem bp_add_refines:
  assumes inv: "asa_inv a" and ty: "asa_type a = Some t"
    and ps: "pin_struct p = Some t" and pv: "pin_value p = Some v"
  shows "\<exists>a'. bp_add a p = Inr (Some (a', asa_num a)) \<and> asa_inv a' \<and> asa_type a' = Some t \<and>
           asa_elems a' = asa_elems a @ [v]"
proof -
  let ?a' = "a\<lparr>asa_memory := Buf (asa_cells a @ [Live v]), asa_num := asa_num a + 1\<rparr>"
  have "bp_add a p = Inr (Some (?a', asa_num a))"
    using asa_add_from_buffer_inv [OF inv ty, of v] bp_value_compatible_same [OF ty ps pv] ty ps pv
    by (simp add: bp_add_def)
  moreover have "asa_inv ?a'"
    using asa_invD(1,2) [OF inv] ty by (intro asa_inv_buf) simp_all
  moreover have "asa_elems ?a' = asa_elems a @ [v]" by (simp add: asa_elems_cells)
  ultimately show ?thesis using ty by auto
qed

theorem bp_add_refines_witness:
  "\<exists>a'. bp_add ex_arr3 \<lparr>pin_value = Some 4, pin_struct = Some ex_elem\<rparr> = Inr (Some (a', 3)) \<and>
     asa_inv a' \<and> asa_elems a' = [1, 2, 3, 4]"
proof -
  have "asa_elems ex_arr3 = [1, 2, 3]" "asa_num ex_arr3 = 3" by (simp_all add: ex_arr3_def asa_elems_def)
  then show ?thesis
    using bp_add_refines [OF ex_arr3_inv, of "\<lparr>pin_value = Some 4, pin_struct = Some ex_elem\<rparr>" 4] by auto
qed

text \<open>Claim C26: Make AnyStructArray tests the type of its return value before
  constructing it: on the default (untyped) return value it dereferences a null
  type for every array pin that names a struct array.\<close>

theorem bp_make_default_faults:
  assumes "arr_values p \<noteq> None" and "arr_inner p \<noteq> None"
  shows "bp_make asa_new p = Inl NullType"
  using assms by (auto simp: bp_make_def bp_array_compatible_def asa_new_def)

theorem bp_make_default_faults_witness:
  "[1, 2] \<noteq> [] \<and> bp_make asa_new \<lparr>arr_values = Some [1, 2], arr_inner = Some ex_elem\<rparr> = Inl NullType"
  using bp_make_default_faults [of "\<lparr>arr_values = Some [1::nat, 2], arr_inner = Some ex_elem\<rparr>"] by simp

text \<open>Claim C27: The value test of the Blueprint thunks admits a well-formed
  array whose type is a child of the pin's struct; when the child is larger,
  Add copies the child's size out of the pin and Get copies it into the pin at
  every valid index: both run past the pin.\<close>

theorem bp_child_array_overruns_pin:
  assumes inv: "asa_inv a" and ty: "asa_type a = Some t"
    and ps: "pin_struct p = Some s" and pv: "pin_value p = Some v"
    and ch: "is_child_of t s" and big: "ss_size s < ss_size t"
  shows "bp_value_compatible a p \<and> bp_add a p = Inl OutOfBounds \<and>
    (\<forall>i. 0 \<le> i \<and> i < asa_num a \<longrightarrow> bp_get a i p = Inl OutOfBounds)"
proof (intro conjI allI impI)
  show c: "bp_value_compatible a p" using ty ps pv ch by (simp add: bp_value_compatible_def)
  show "bp_add a p = Inl OutOfBounds" using c ty ps pv big by (simp add: bp_add_def)
  fix i assume i: "0 \<le> i \<and> i < asa_num a"
  have "asa_get_raw_ptr i a = Inr i"
    using i ty by (simp add: asa_get_raw_ptr_def asa_is_valid_index_def asa_struct_def)
  then show "bp_get a i p = Inl OutOfBounds"
    using c i ty ps big read_vals_one [OF inv] buf_cells_inv [OF inv]
    by (simp add: bp_get_def asa_is_valid_index_def)
qed

theorem bp_child_array_overruns_pin_witness:
  "bp_value_compatible ex_child_arr ex_parent_pin \<and> bp_add ex_child_arr ex_parent_pin = Inl OutOfBounds \<and>
   bp_get ex_child_arr 0 ex_parent_pin = Inl OutOfBounds"
proof -
  have h: "asa_inv ex_child_arr" "asa_type ex_child_arr = Some ex_child"
    "pin_struct ex_parent_pin = Some ex_elem" "pin_value ex_parent_pin = Some 0"
    "is_child_of ex_child ex_elem" "ss_size ex_elem < ss_size ex_child" "asa_num ex_child_arr = 1"
    by (simp_all add: ex_child_arr_def ex_parent_pin_def ex_child_def ex_elem_def is_child_of_def asa_inv_def)
  show ?thesis using bp_child_array_overruns_pin [OF h(1-6)] h(7) by simp
qed

end
