(* ===== verification/AnyStruct.thy ===== *)
theory AnyStruct
  imports ECS_Prelude
begin

text \<open>
  The type-erased value \<open>FAnyStruct\<close> (\<open>Types/AnyStruct.h\<close>): a pointer
  \<open>RawMemory\<close> to one struct slot (null, or a slot that holds a live value or
  not) and its type \<open>Type\<close>.  Each method is one definition over the state
  record.  Copy and move assignment act on a store of values so that self
  assignment is the aliasing the code performs.  \<open>Serialize\<close> and
  \<open>NetSerialize\<close> act on an archive: a saving archive appends items, a loading
  archive consumes them and sets its error flag on a missing or mismatched
  item, as \<open>FArchive\<close> does.  The per-property walk of
  \<open>NetSerializeStructProps\<close> (reflection over \<open>FProperty\<close> fields) writes and
  reads the whole value as one item.
\<close>

section \<open>State\<close>

record 'v any_struct =
  as_raw :: "'v cell option"
  as_type :: "'v script_struct option"

type_synonym 'v as_store = "nat \<Rightarrow> 'v any_struct"

datatype 'v ar_item = ArStruct "'v script_struct option" | ArBin 'v | ArBit bool

record 'v archive =
  ar_loading :: bool
  ar_items :: "'v ar_item list"
  ar_error :: bool

section \<open>Primitives\<close>

text \<open>Reading the value behind a \<open>const void*\<close> that may be null.\<close>

fun as_src :: "'v cell option \<Rightarrow> 'v option checked" where
  "as_src None = Inr None"
| "as_src (Some (Live v)) = Inr (Some v)"
| "as_src (Some Uninit) = Inl ReadDead"

text \<open>\<open>DestroyStruct(RawMemory)\<close> (or \<open>~T()\<close>) of the one slot.\<close>

fun as_destroy_slot :: "'v cell option \<Rightarrow> 'v cell option checked" where
  "as_destroy_slot (Some (Live v)) = Inr (Some Uninit)"
| "as_destroy_slot (Some Uninit) = Inl DestroyDead"
| "as_destroy_slot None = Inl OutOfBounds"

text \<open>\<open>FMemory::Realloc\<close> keeps the bytes of the slot; \<open>Malloc\<close> gives an
  unconstructed one.\<close>

definition as_realloc :: "'v cell option \<Rightarrow> 'v cell option" where
  "as_realloc c = (case c of None \<Rightarrow> Some Uninit | Some x \<Rightarrow> Some x)"

section \<open>Construction, destruction and type queries\<close>

definition as_new :: "'v any_struct" where
  "as_new = \<lparr>as_raw = None, as_type = None\<rparr>"

definition as_of_type :: "'v script_struct option \<Rightarrow> 'v any_struct" where
  "as_of_type st =
     (case st of None \<Rightarrow> \<lparr>as_raw = None, as_type = None\<rparr>
      | Some t \<Rightarrow> \<lparr>as_raw = Some (Live (ss_default t)), as_type = Some t\<rparr>)"

definition as_of_type_copy :: "'v script_struct option \<Rightarrow> 'v option \<Rightarrow> 'v any_struct checked" where
  "as_of_type_copy st cp =
     (let a = as_of_type st in
      if as_type a = None then Inr a
      else case cp of None \<Rightarrow> Inl NullCopy | Some v \<Rightarrow> Inr (a\<lparr>as_raw := Some (Live v)\<rparr>))"

definition as_copy :: "'v any_struct \<Rightarrow> 'v any_struct checked" where
  "as_copy other = chk_bind (as_src (as_raw other)) (as_of_type_copy (as_type other))"

definition as_move :: "'v any_struct \<Rightarrow> 'v any_struct \<times> 'v any_struct" where
  "as_move other = (other, as_new)"

definition as_is_valid :: "'v any_struct \<Rightarrow> bool" where
  "as_is_valid a \<longleftrightarrow> as_type a \<noteq> None"

definition as_destruct :: "'v any_struct \<Rightarrow> unit checked" where
  "as_destruct a =
     (if \<not> as_is_valid a then Inr () else chk_bind (as_destroy_slot (as_raw a)) (\<lambda>_. Inr ()))"

definition as_destroy :: "'v any_struct \<Rightarrow> 'v any_struct checked" where
  "as_destroy a =
     (if \<not> as_is_valid a then Inr a
      else chk_bind (as_destroy_slot (as_raw a)) (\<lambda>_. Inr \<lparr>as_raw = None, as_type = None\<rparr>))"

definition as_make :: "'v script_struct \<Rightarrow> 'v \<Rightarrow> 'v any_struct" where
  "as_make t v = \<lparr>as_raw = Some (Live v), as_type = Some t\<rparr>"

definition as_is_a :: "'v script_struct option \<Rightarrow> 'v any_struct \<Rightarrow> bool" where
  "as_is_a st a =
     (as_is_valid a \<and> (case (st, as_type a) of (Some b, Some t) \<Rightarrow> is_child_of t b | _ \<Rightarrow> False))"

definition as_is_a_exact :: "'v script_struct option \<Rightarrow> 'v any_struct \<Rightarrow> bool" where
  "as_is_a_exact st a \<longleftrightarrow> as_is_valid a \<and> as_type a = st"

text \<open>\<open>Get<T>()\<close>: the slot when \<open>IsA<T>()\<close>, else null.\<close>

definition as_get :: "'v script_struct \<Rightarrow> 'v any_struct \<Rightarrow> 'v cell option" where
  "as_get t a = (if as_is_a (Some t) a then as_raw a else None)"

definition as_get_checked :: "'v script_struct \<Rightarrow> 'v any_struct \<Rightarrow> 'v cell checked" where
  "as_get_checked t a =
     (if \<not> as_is_a (Some t) a then Inl TypeMismatch
      else case as_raw a of None \<Rightarrow> Inl OutOfBounds | Some c \<Rightarrow> Inr c)"

section \<open>Setting the value\<close>

text \<open>\<open>Set<T>(Params...)\<close>: destroy the old value (\<open>~T()\<close> when the type is
  the same), reallocate when the type or its layout differs, construct the new
  value in place.\<close>

definition as_set_value :: "'v script_struct \<Rightarrow> 'v \<Rightarrow> 'v any_struct \<Rightarrow> 'v any_struct checked" where
  "as_set_value t v a =
     chk_bind
       (case as_type a of
          Some ty \<Rightarrow>
            chk_bind (as_destroy_slot (as_raw a)) (\<lambda>c.
              Inr (if ty \<noteq> t \<or> ss_size ty \<noteq> ss_size t \<or> ss_align ty \<noteq> ss_align t then as_realloc c else c))
        | None \<Rightarrow> Inr (Some Uninit)) (\<lambda>c.
       Inr \<lparr>as_raw = map_option (\<lambda>_. Live v) c, as_type = Some t\<rparr>)"

definition as_set_type :: "'v script_struct option \<Rightarrow> 'v any_struct \<Rightarrow> 'v any_struct checked" where
  "as_set_type st a =
     (case st of None \<Rightarrow> Inl NullType
      | Some t \<Rightarrow>
         chk_bind
           (case as_type a of
              Some ty \<Rightarrow>
                chk_bind (as_destroy_slot (as_raw a)) (\<lambda>c.
                  Inr (if ty \<noteq> t \<or> ss_size ty \<noteq> ss_size t \<or> ss_align ty \<noteq> ss_align t then as_realloc c else c))
            | None \<Rightarrow> Inr (Some Uninit)) (\<lambda>c.
           Inr \<lparr>as_raw = map_option (\<lambda>_. Live (ss_default t)) c, as_type = Some t\<rparr>))"

definition as_set_copy :: "'v script_struct option \<Rightarrow> 'v option \<Rightarrow> 'v any_struct \<Rightarrow> 'v any_struct checked" where
  "as_set_copy st cp a =
     (case cp of None \<Rightarrow> Inl NullCopy
      | Some v \<Rightarrow> chk_bind (as_set_type st a) (\<lambda>a1. Inr (a1\<lparr>as_raw := map_option (\<lambda>_. Live v) (as_raw a1)\<rparr>)))"

section \<open>Assignment and equality\<close>

text \<open>\<open>operator=(const FAnyStruct& Other)\<close>: \<open>Set(Other.Type, Other.RawMemory)\<close>,
  whose \<open>Set(InType)\<close> re-initializes \<open>this\<close> before \<open>CopyScriptStruct\<close> reads
  \<open>Other.RawMemory\<close> (the same slot under self assignment).\<close>

definition as_assign :: "'v as_store \<Rightarrow> nat \<Rightarrow> nat \<Rightarrow> 'v as_store checked" where
  "as_assign st dst src =
     (if \<not> as_is_valid (st src) then chk_bind (as_destroy (st dst)) (\<lambda>a. Inr (st(dst := a)))
      else if as_raw (st src) = None then Inl NullCopy
      else chk_bind (as_set_type (as_type (st src)) (st dst)) (\<lambda>a1.
             let st1 = st(dst := a1) in
             chk_bind (as_src (as_raw (st1 src))) (\<lambda>cv.
               case cv of None \<Rightarrow> Inl NullCopy
               | Some v \<Rightarrow> Inr (st1(dst := a1\<lparr>as_raw := map_option (\<lambda>_. Live v) (as_raw a1)\<rparr>)))))"

definition as_move_assign :: "'v as_store \<Rightarrow> nat \<Rightarrow> nat \<Rightarrow> 'v as_store checked" where
  "as_move_assign st dst src =
     chk_bind (as_destroy (st dst)) (\<lambda>a0.
       let st1 = st(dst := a0); st2 = st1(dst := st1 src) in Inr (st2(src := as_new)))"

definition as_eq :: "'v any_struct \<Rightarrow> 'v any_struct \<Rightarrow> bool checked" where
  "as_eq a b =
     (if as_is_valid a \<noteq> as_is_valid b then Inr False
      else if \<not> as_is_valid a then Inr True
      else if as_type a \<noteq> as_type b then Inr False
      else chk_bind (as_src (as_raw a)) (\<lambda>x. chk_bind (as_src (as_raw b)) (\<lambda>y.
             if x = None \<or> y = None then Inl OutOfBounds else Inr (x = y))))"

definition as_ne :: "'v any_struct \<Rightarrow> 'v any_struct \<Rightarrow> bool checked" where
  "as_ne a b = chk_bind (as_eq a b) (\<lambda>r. Inr (\<not> r))"

definition as_eq_value :: "'v script_struct \<Rightarrow> 'v \<Rightarrow> 'v any_struct \<Rightarrow> bool checked" where
  "as_eq_value t v a =
     (if \<not> (as_is_valid a \<and> as_type a = Some t) then Inr False
      else chk_bind (as_src (as_raw a)) (\<lambda>x. if x = None then Inl OutOfBounds else Inr (x = Some v)))"

definition as_ne_value :: "'v script_struct \<Rightarrow> 'v \<Rightarrow> 'v any_struct \<Rightarrow> bool checked" where
  "as_ne_value t v a = chk_bind (as_eq_value t v a) (\<lambda>r. Inr (\<not> r))"

section \<open>Serialization\<close>

text \<open>\<open>Ar << (UScriptStruct*&)NewType\<close>: a saving archive writes the type; a
  loading archive reads one, or sets its error flag and yields null.\<close>

definition ar_struct :: "'v archive \<Rightarrow> 'v script_struct option \<Rightarrow> 'v archive \<times> 'v script_struct option" where
  "ar_struct ar st =
     (if \<not> ar_loading ar then (ar\<lparr>ar_items := ar_items ar @ [ArStruct st]\<rparr>, st)
      else case ar_items ar of
             ArStruct x # rest \<Rightarrow> (ar\<lparr>ar_items := rest\<rparr>, x)
           | _ \<Rightarrow> (ar\<lparr>ar_error := True\<rparr>, None))"

text \<open>\<open>SerializeBin(Ar, RawMemory)\<close>: writes the value of the slot, or reads a
  value into it.\<close>

definition ar_bin :: "'v archive \<Rightarrow> 'v cell option \<Rightarrow> ('v archive \<times> 'v cell option) checked" where
  "ar_bin ar c =
     (if \<not> ar_loading ar then
        chk_bind (as_src c) (\<lambda>x. case x of None \<Rightarrow> Inl OutOfBounds
                                 | Some v \<Rightarrow> Inr (ar\<lparr>ar_items := ar_items ar @ [ArBin v]\<rparr>, c))
      else case c of None \<Rightarrow> Inl OutOfBounds
           | Some _ \<Rightarrow> (case ar_items ar of
                          ArBin v # rest \<Rightarrow> Inr (ar\<lparr>ar_items := rest\<rparr>, Some (Live v))
                        | _ \<Rightarrow> Inr (ar\<lparr>ar_error := True\<rparr>, c)))"

text \<open>\<open>Ar.SerializeBits(&b, 1)\<close>.\<close>

definition ar_bit :: "'v archive \<Rightarrow> bool \<Rightarrow> 'v archive \<times> bool" where
  "ar_bit ar b =
     (if \<not> ar_loading ar then (ar\<lparr>ar_items := ar_items ar @ [ArBit b]\<rparr>, b)
      else case ar_items ar of
             ArBit x # rest \<Rightarrow> (ar\<lparr>ar_items := rest\<rparr>, x)
           | _ \<Rightarrow> (ar\<lparr>ar_error := True\<rparr>, False))"

definition as_serialize :: "'v archive \<Rightarrow> 'v any_struct \<Rightarrow> ('v archive \<times> 'v any_struct) checked" where
  "as_serialize ar a =
     (let (ar1, nt) = ar_struct ar (as_type a) in
      if nt \<noteq> None then
        chk_bind (if ar_loading ar1 then as_set_type nt a else Inr a) (\<lambda>a1.
          chk_bind (ar_bin ar1 (as_raw a1)) (\<lambda>(ar2, c). Inr (ar2, a1\<lparr>as_raw := c\<rparr>)))
      else if ar_loading ar1 then chk_bind (as_destroy a) (\<lambda>a1. Inr (ar1, a1))
      else Inr (ar1, a))"

text \<open>\<open>NetSerialize\<close>; its call \<open>NetSerializeStructProps(Ar, Map, bOutSuccess, Type,
  RawMemory)\<close> walks the \<open>FProperty\<close> fields of the struct by reflection and is
  modelled as the transfer of the whole value (\<open>ar_bin\<close>).\<close>

definition as_net_serialize :: "'v archive \<Rightarrow> 'v any_struct \<Rightarrow> ('v archive \<times> 'v any_struct) checked" where
  "as_net_serialize ar a =
     (let (ar1, any) = ar_bit ar (if \<not> ar_loading ar then as_is_valid a else False) in
      if \<not> any then
        (if ar_loading ar1 then chk_bind (as_destroy a) (\<lambda>a1. Inr (ar1, a1)) else Inr (ar1, a))
      else
        let (ar2, nt) = ar_struct ar1 (as_type a) in
        if nt = None then Inl NullType
        else chk_bind (if ar_loading ar2 \<and> as_type a \<noteq> nt then as_set_type nt a else Inr a) (\<lambda>a1.
               chk_bind (ar_bin ar2 (as_raw a1)) (\<lambda>(ar3, c). Inr (ar3, a1\<lparr>as_raw := c\<rparr>))))"

section \<open>Well-formedness\<close>

text \<open>A valid value owns a slot holding a live value; an invalid one owns none.\<close>

definition as_inv :: "'v any_struct \<Rightarrow> bool" where
  "as_inv a =
     (case (as_type a, as_raw a) of
        (None, None) \<Rightarrow> True
      | (Some _, Some (Live _)) \<Rightarrow> True
      | _ \<Rightarrow> False)"

definition saving_archive :: "'v archive" where
  "saving_archive = \<lparr>ar_loading = False, ar_items = [], ar_error = False\<rparr>"

definition loading_archive :: "'v ar_item list \<Rightarrow> 'v archive" where
  "loading_archive xs = \<lparr>ar_loading = True, ar_items = xs, ar_error = False\<rparr>"


section \<open>Fixtures\<close>

text \<open>A 4-byte struct type with default value 0.\<close>

definition ex_st :: "nat script_struct" where
  "ex_st = \<lparr>ss_uid = 9, ss_size = 4, ss_align = 4, ss_default = 0, ss_super = []\<rparr>"

section \<open>Lemmas\<close>



lemma as_inv_cases:
  assumes "as_inv a"
  obtains (invalid) "a = as_new" | (valid) t v where "a = as_make t v"
  using assms by (cases a) (auto simp: as_inv_def as_new_def as_make_def split: option.splits cell.splits)

lemma as_make_inv [simp]: "as_inv (as_make t v)" and as_new_inv [simp]: "as_inv as_new"
  by (simp_all add: as_inv_def as_make_def as_new_def)

lemma as_new_fields [simp]: "as_type as_new = None" "as_raw as_new = None" "as_is_valid as_new = False"
  by (simp_all add: as_new_def as_is_valid_def)

lemma as_make_fields [simp]: "as_type (as_make t v) = Some t" "as_raw (as_make t v) = Some (Live v)"
    "as_is_valid (as_make t v)"
  by (simp_all add: as_make_def as_is_valid_def)

lemma as_make_neq_new [simp]: "as_make t v \<noteq> as_new"
  by (simp add: as_make_def as_new_def)

lemma as_is_valid_record [simp]: "as_is_valid \<lparr>as_raw = r, as_type = ty\<rparr> \<longleftrightarrow> ty \<noteq> None"
  by (simp add: as_is_valid_def)

lemma as_of_type_Some [simp]: "as_of_type (Some t) = as_make t (ss_default t)"
  by (simp add: as_of_type_def as_make_def)

lemma as_of_type_None [simp]: "as_of_type None = as_new"
  by (simp add: as_of_type_def as_new_def)

lemma as_set_type_inv:
  "as_inv a \<Longrightarrow> as_set_type (Some t) a = Inr (as_make t (ss_default t))"
  by (erule as_inv_cases) (auto simp: as_set_type_def as_realloc_def as_make_def)

lemma as_set_value_inv:
  "as_inv a \<Longrightarrow> as_set_value t v a = Inr (as_make t v)"
  by (erule as_inv_cases) (auto simp: as_set_value_def as_realloc_def as_make_def)

lemma as_destroy_inv: "as_inv a \<Longrightarrow> as_destroy a = Inr as_new"
  by (erule as_inv_cases) (auto simp: as_destroy_def as_new_def)

lemma as_copy_inv: "as_inv a \<Longrightarrow> as_copy a = Inr a"
  by (erule as_inv_cases) (auto simp: as_copy_def as_of_type_copy_def as_make_def)

section \<open>Properties\<close>

text \<open>Claim C20: Copy assignment of FAnyStruct goes through Set(Other.Type, Other.RawMemory), whose Set(InType) re-initializes this before the copy reads Other: between distinct well-formed values it copies, but a self assignment a = a resets a to the default value of its type.\<close>

theorem as_assign_aliasing:
  assumes d: "as_inv (st dst)" and s: "as_inv (st src)"
  shows "\<exists>st'. as_assign st dst src = Inr st' \<and>
               st' dst = (if dst = src then as_of_type (as_type (st src)) else st src) \<and>
               (\<forall>j. j \<noteq> dst \<longrightarrow> st' j = st j)"
  using s
proof (cases rule: as_inv_cases)
  case invalid
  then show ?thesis using as_destroy_inv [OF d] by (auto simp: as_assign_def)
next
  case (valid t v)
  show ?thesis
  proof (cases "dst = src")
    case True
    then show ?thesis using valid as_set_type_inv [OF d, of t]
      by (auto simp: as_assign_def as_make_def)
  next
    case False
    then show ?thesis using valid as_set_type_inv [OF d, of t]
      by (auto simp: as_assign_def as_make_def)
  qed
qed

theorem as_assign_aliasing_witness:
  "\<exists>st'. as_assign (\<lambda>_. as_make ex_st 5) 0 0 = Inr st' \<and> st' 0 = as_make ex_st 0"
  using as_assign_aliasing [where st = "\<lambda>_. as_make ex_st 5" and dst = 0 and src = 0]
  by (force simp: ex_st_def)

text \<open>Claim C21: Serialize round trip: saving a well-formed value to an archive and loading the written items into any well-formed value gives back the saved value (type and contents), consumes the archive and raises no error.\<close>

theorem as_serialize_roundtrip:
  assumes a: "as_inv a" and b: "as_inv b"
  shows "\<exists>ar. as_serialize saving_archive a = Inr (ar, a) \<and> \<not> ar_error ar \<and>
              as_serialize (loading_archive (ar_items ar)) b = Inr (loading_archive [], a)"
  using a
proof (cases rule: as_inv_cases)
  case invalid
  then show ?thesis using as_destroy_inv [OF b]
    by (auto simp: as_serialize_def saving_archive_def loading_archive_def ar_struct_def)
next
  case (valid t v)
  then show ?thesis using as_set_type_inv [OF b, of t]
    by (auto simp: as_serialize_def saving_archive_def loading_archive_def ar_struct_def ar_bin_def as_make_def)
qed

theorem as_serialize_roundtrip_witness:
  "\<exists>ar. as_serialize saving_archive (as_make ex_st 5) = Inr (ar, as_make ex_st 5) \<and> \<not> ar_error ar \<and>
        as_serialize (loading_archive (ar_items ar)) as_new = Inr (loading_archive [], as_make ex_st 5)"
  by (rule as_serialize_roundtrip) simp_all

text \<open>NetSerialize round trip: saving a well-formed value and loading the written bit, type and properties into any well-formed value gives back the saved value, consumes the archive and raises no error.\<close>

theorem as_net_serialize_roundtrip:
  assumes a: "as_inv a" and b: "as_inv b"
  shows "\<exists>ar. as_net_serialize saving_archive a = Inr (ar, a) \<and> \<not> ar_error ar \<and>
              as_net_serialize (loading_archive (ar_items ar)) b = Inr (loading_archive [], a)"
  using a
proof (cases rule: as_inv_cases)
  case invalid
  then show ?thesis using as_destroy_inv [OF b]
    by (auto simp: as_net_serialize_def saving_archive_def loading_archive_def ar_bit_def)
next
  case (valid t v)
  show ?thesis
    using b
  proof (cases rule: as_inv_cases)
    case invalid
    then show ?thesis using valid as_set_type_inv [OF b, of t]
      by (auto simp: as_net_serialize_def saving_archive_def loading_archive_def ar_bit_def ar_struct_def
                     ar_bin_def as_make_def)
  next
    case (valid t' v')
    then show ?thesis using \<open>a = as_make t v\<close> as_set_type_inv [OF b, of t]
      by (auto simp: as_net_serialize_def saving_archive_def loading_archive_def ar_bit_def ar_struct_def
                     ar_bin_def as_make_def)
  qed
qed

theorem as_net_serialize_roundtrip_witness:
  "\<exists>ar. as_net_serialize saving_archive (as_make ex_st 5) = Inr (ar, as_make ex_st 5) \<and> \<not> ar_error ar \<and>
        as_net_serialize (loading_archive (ar_items ar)) (as_make ex_st 1) = Inr (loading_archive [], as_make ex_st 5)"
  by (rule as_net_serialize_roundtrip) simp_all

text \<open>Claim C37: operator== on well-formed values never faults and holds exactly when both are invalid or both have the same type and equal contents.\<close>

theorem as_eq_correct:
  assumes "as_inv a" "as_inv b"
  shows "as_eq a b = Inr (a = b)"
  using assms
  by (cases rule: as_inv_cases; cases rule: as_inv_cases [OF assms(2)])
     (auto simp: as_eq_def as_make_def as_new_def as_is_valid_def)

theorem as_eq_correct_witness:
  "as_eq (as_make ex_st 5) (as_make ex_st 5) = Inr True \<and> as_eq (as_make ex_st 5) as_new = Inr False"
  using as_eq_correct [of "as_make ex_st 5" "as_make ex_st 5"] as_eq_correct [of "as_make ex_st 5" as_new]
  by simp

text \<open>On a well-formed value, Set<T>(v), Set(Type), Set(Type, Copy), Destroy, the copy constructor and the destructor never fault, and each leaves the value its contract names.\<close>

theorem as_ops_exact:
  assumes "as_inv a"
  shows "as_set_value t v a = Inr (as_make t v) \<and> as_set_type (Some t) a = Inr (as_make t (ss_default t)) \<and>
         as_set_copy (Some t) (Some v) a = Inr (as_make t v) \<and> as_destroy a = Inr as_new \<and>
         as_copy a = Inr a \<and> as_destruct a = Inr ()"
proof -
  have "as_destruct a = Inr ()"
    using assms by (cases rule: as_inv_cases) (auto simp: as_destruct_def as_make_def)
  then show ?thesis
    using as_set_value_inv [OF assms] as_set_type_inv [OF assms] as_destroy_inv [OF assms] as_copy_inv [OF assms]
    by (simp add: as_set_copy_def as_make_def)
qed

theorem as_ops_exact_witness:
  "as_set_value ex_st 3 as_new = Inr (as_make ex_st 3) \<and> as_destroy (as_make ex_st 5) = Inr as_new"
  using as_ops_exact [of as_new ex_st 3] as_ops_exact [of "as_make ex_st 5" ex_st 3] by simp

text \<open>Claim C38: Get<T>() on a well-formed value returns a slot only when the stored type is T or derives from T, and that slot holds a live value.\<close>

theorem as_get_type_safe:
  assumes "as_inv a" "as_get t a = Some c"
  shows "\<exists>ty v. as_type a = Some ty \<and> is_child_of ty t \<and> c = Live v"
  using assms by (cases rule: as_inv_cases) (auto simp: as_get_def as_is_a_def split: if_splits)

theorem as_get_type_safe_witness:
  "\<exists>ty v. as_type (as_make ex_st 5) = Some ty \<and> is_child_of ty ex_st \<and> Live (5::nat) = Live v"
proof -
  have "as_get ex_st (as_make ex_st 5) = Some (Live 5)"
    by (simp add: as_get_def as_is_a_def is_child_of_def)
  from as_get_type_safe [OF as_make_inv this] show ?thesis .
qed

end
