(* ===== verification/MPSort.thy ===== *)
theory MPSort
  imports ECS_Prelude "HOL-Library.Multiset"
begin

text \<open>
  The compile-time sort of \<open>Metaprogramming/MPSort.h\<close>.  A template parameter
  pack \<open>Z<Is...>\<close> of integers is a list; \<open>meta::prepend\<close> is \<open>#\<close> and
  \<open>meta::concat\<close> is \<open>@\<close>.  \<open>filter\<close> keeps the elements a unary predicate
  holds of; \<open>composed_binary_predicates\<close> decides \<open>A\<close> before \<open>B\<close> by the first
  comparator of the pack that orders the two; \<open>composed_sort\<close> is a quicksort on
  the head of the pack.  \<open>MP::TSortByIDs\<close> sorts type ids with \<open>less_than\<close>.
  Proved: the sort terminates (a measure on the pack length), permutes its
  input for every comparator pack, and with \<open>less_than\<close> it is \<open>sort\<close>.
\<close>

section \<open>Definitions\<close>

type_synonym mp_pred = "int \<Rightarrow> int \<Rightarrow> bool"

text \<open>\<open>filter<T, Z<I, Is...>, UnaryPredicate>\<close>: prepend \<open>I\<close> to the filtered
  rest when the predicate holds of it.\<close>

fun mp_filter :: "(int \<Rightarrow> bool) \<Rightarrow> int list \<Rightarrow> int list" where
  "mp_filter p [] = []"
| "mp_filter p (i # is) = (if p i then i # mp_filter p is else mp_filter p is)"

text \<open>\<open>composed_binary_predicates<T, A, B, Comparator, Rest...>\<close>: true if the
  comparator orders \<open>A\<close> before \<open>B\<close>, false if it orders \<open>B\<close> before \<open>A\<close>,
  otherwise the rest decides; the last comparator decides alone.  An empty
  pack does not instantiate (the primary template needs a comparator); it is
  false here.\<close>

fun composed_binary_predicates :: "mp_pred list \<Rightarrow> int \<Rightarrow> int \<Rightarrow> bool" where
  "composed_binary_predicates [] a b = False"
| "composed_binary_predicates [c] a b = c a b"
| "composed_binary_predicates (c # cs) a b =
     (if c a b then True else if c b a then False else composed_binary_predicates cs a b)"

text \<open>\<open>composed_sort<T, Z<N, Is...>, Predicates...>\<close>: the elements the composed
  order puts before the pivot \<open>N\<close> (\<open>less_than\<close>), sorted, then \<open>N\<close>, then the
  others (\<open>more_than\<close>), sorted.\<close>

function composed_sort :: "mp_pred list \<Rightarrow> int list \<Rightarrow> int list" where
  "composed_sort ps [] = []"
| "composed_sort ps (n # is) =
     composed_sort ps (mp_filter (\<lambda>i. composed_binary_predicates ps i n) is) @
     n # composed_sort ps (mp_filter (\<lambda>i. \<not> composed_binary_predicates ps i n) is)"
  by pat_completeness auto
termination
proof (relation "measure (\<lambda>(ps, xs). length xs)")
  have len: "length (mp_filter p xs) < Suc (length xs)" for p xs by (induction xs) auto
  show "wf (measure (\<lambda>(ps, xs). length xs))" by simp
  show "((ps, mp_filter p is), ps, n # is) \<in> measure (\<lambda>(ps, xs). length xs)" for ps p n "is"
    using len by simp
  show "((ps, mp_filter p is), ps, n # is) \<in> measure (\<lambda>(ps, xs). length xs)" for ps p n "is"
    using len by simp
qed

text \<open>The comparators of the test section: the standard \<open>less_than\<close>,
  \<open>N_first<N>\<close>, \<open>N_last<N>\<close> and \<open>even_numbers\<close>.  C++ \<open>%\<close> of a negative
  number is negative or zero, so its tests \<open>== 0\<close> and \<open>!= 0\<close> agree with
  those on HOL's \<open>mod\<close>.\<close>

definition mp_less_than :: mp_pred where
  "mp_less_than i j \<longleftrightarrow> i < j"

definition n_first :: "int \<Rightarrow> mp_pred" where
  "n_first n i j \<longleftrightarrow> i = n \<and> j \<noteq> n"

definition n_last :: "int \<Rightarrow> mp_pred" where
  "n_last n i j \<longleftrightarrow> i \<noteq> n \<and> j = n"

definition even_numbers :: mp_pred where
  "even_numbers i j \<longleftrightarrow> (i mod 2 = 0 \<and> j mod 2 \<noteq> 0) \<or> (i mod 2 = 0 \<and> j mod 2 = 0 \<and> i < j)"

text \<open>\<open>MP::TSortByIDs<Ts...>\<close>: the type ids sorted by \<open>less_than\<close>.\<close>

definition sort_by_ids :: "int list \<Rightarrow> int list" where
  "sort_by_ids ids = composed_sort [mp_less_than] ids"

section \<open>Lemmas\<close>

lemma mp_filter_eq [simp]: "mp_filter p xs = filter p xs"
  by (induction xs) auto

lemma composed_less_than [simp]: "composed_binary_predicates [mp_less_than] = (<)"
  by (simp add: fun_eq_iff mp_less_than_def)

lemma set_composed_sort [simp]: "set (composed_sort ps xs) = set xs"
  by (induction ps xs rule: composed_sort.induct) auto

lemma sorted_composed_less_than: "sorted (composed_sort [mp_less_than] xs)"
  by (induction "[mp_less_than]" xs rule: composed_sort.induct)
     (auto simp: sorted_append not_less less_imp_le)

section \<open>Properties\<close>

text \<open>Claim C23: composed_sort permutes its input for every comparator pack:
  no type id is lost or duplicated, whatever the comparators are.\<close>

theorem composed_sort_permutes:
  "mset (composed_sort ps xs) = mset xs"
  by (induction ps xs rule: composed_sort.induct) simp_all

text \<open>Claim C22: With the standard less_than, composed_sort (and so
  TSortByIDs) is the sort of the library.\<close>

theorem sort_by_ids_is_sort:
  "sort_by_ids ids = sort ids"
proof -
  have "mset (composed_sort [mp_less_than] ids) = mset ids"
    by (induction "[mp_less_than]" ids rule: composed_sort.induct) simp_all
  then show ?thesis
    unfolding sort_by_ids_def
    by (intro properties_for_sort [symmetric] sorted_composed_less_than)
qed

end
