(* ===== verification/ConstexprCounter.thy ===== *)
theory ConstexprCounter
  imports ECS_Prelude
begin

text \<open>
  \<open>MP::TConstexprCounter\<close> of \<open>Metaprogramming/ConstexprCounter.h\<close>: a
  compile-time counter built on friend injection.  \<open>Flag<Tag<T, N>>\<close> is set
  once \<open>Writer\<close> has been instantiated for it (which defines \<open>adl_flag\<close>); the
  state of the counter with tag \<open>T\<close> is the list of the \<open>N\<close> whose flag is set.
  \<open>CheckerWrapper<T, N, Step>::currentval\<close> walks \<open>N, N + Step, ...\<close> to the
  first unset flag; \<open>Next()\<close> returns it and sets its flag (\<open>ReadSet\<close>),
  \<open>Count()\<close> returns it.  The walk is a \<open>partial_function (option)\<close>: \<open>None\<close>
  is an instantiation recursion that does not end (a compile error).
  Proved: the walk ends whenever \<open>Step > 0\<close>, never when \<open>Step = 0\<close> and the
  start flag is set, and successive \<open>Next()\<close> calls return
  \<open>Start, Start + Step, ...\<close>.  The \<open>int32\<close> range of the template arguments
  is not modelled (it takes \<open>2^31\<close> calls to reach it).
\<close>

section \<open>Definitions\<close>

text \<open>\<open>Flag<Tag<T, N>>::Read()\<close>: whether the flag of \<open>N\<close> is set.\<close>

definition flag_read :: "int list \<Rightarrow> int \<Rightarrow> bool" where
  "flag_read fl n \<longleftrightarrow> n \<in> set fl"

text \<open>\<open>CheckerWrapper<T, N, Step>::currentval()\<close> with \<open>Checker<T, N, Step, B>\<close>:
  \<open>N\<close> when its flag is clear, otherwise the value at \<open>N + Step\<close>.\<close>

partial_function (option) counter_current :: "int list \<Rightarrow> int \<Rightarrow> int \<Rightarrow> int option" where
  "counter_current fl n step = (if flag_read fl n then counter_current fl (n + step) step else Some n)"

declare counter_current.simps [code]

text \<open>\<open>Flag<Tag<T, N>>::ReadSet()\<close>, instantiated by \<open>Next<T, N>\<close>: sets the flag
  and returns its old value.\<close>

definition flag_read_set :: "int list \<Rightarrow> int \<Rightarrow> bool \<times> int list" where
  "flag_read_set fl n = (flag_read fl n, if flag_read fl n then fl else n # fl)"

text \<open>\<open>TConstexprCounter<Tag, Start, Step>::Next()\<close> and \<open>Count()\<close>.\<close>

definition counter_next :: "int \<Rightarrow> int \<Rightarrow> int list \<Rightarrow> (int \<times> int list) option" where
  "counter_next start step fl =
     (case counter_current fl start step of
        None \<Rightarrow> None
      | Some n \<Rightarrow> Some (n, snd (flag_read_set fl n)))"

definition counter_count :: "int \<Rightarrow> int \<Rightarrow> int list \<Rightarrow> int option" where
  "counter_count start step fl = counter_current fl start step"

text \<open>A sequence of \<open>k\<close> calls of \<open>Next()\<close> in one translation unit: the values
  returned and the flags after them.\<close>

fun counter_nexts :: "nat \<Rightarrow> int \<Rightarrow> int \<Rightarrow> int list \<Rightarrow> (int list \<times> int list) option" where
  "counter_nexts 0 start step fl = Some ([], fl)"
| "counter_nexts (Suc k) start step fl =
     (case counter_next start step fl of
        None \<Rightarrow> None
      | Some (n, fl1) \<Rightarrow>
          (case counter_nexts k start step fl1 of
             None \<Rightarrow> None
           | Some (ns, fl2) \<Rightarrow> Some (n # ns, fl2)))"

section \<open>Lemmas\<close>

text \<open>One step of the walk, each way.\<close>

lemma counter_current_set: "flag_read fl n \<Longrightarrow> counter_current fl n step = counter_current fl (n + step) step"
  by (subst counter_current.simps) simp

lemma counter_current_clear: "\<not> flag_read fl n \<Longrightarrow> counter_current fl n step = Some n"
  by (subst counter_current.simps) simp

text \<open>The walk from \<open>start + i * step\<close> over flags set exactly at the first
  \<open>j\<close> multiples ends at the \<open>j\<close>-th.\<close>

lemma counter_current_multiples:
  assumes step: "0 < step" and fl: "set fl = {start + int i * step | i. i < j}" and ij: "i \<le> j"
  shows "counter_current fl (start + int i * step) step = Some (start + int j * step)"
  using ij
proof (induction "j - i" arbitrary: i)
  case 0
  then have "i = j" by simp
  have "start + int j * step \<notin> set fl"
  proof
    assume "start + int j * step \<in> set fl"
    then obtain i' where "start + int j * step = start + int i' * step" "i' < j" using fl by auto
    then show False using step by simp
  qed
  with \<open>i = j\<close> show ?case by (simp add: counter_current_clear flag_read_def)
next
  case (Suc d)
  then have i: "i < j" "d = j - Suc i" by simp_all
  then have "flag_read fl (start + int i * step)" using fl by (auto simp: flag_read_def)
  then have "counter_current fl (start + int i * step) step = counter_current fl (start + int i * step + step) step"
    by (rule counter_current_set)
  also have "start + int i * step + step = start + int (Suc i) * step" by (simp add: algebra_simps)
  also have "counter_current fl \<dots> step = Some (start + int j * step)"
    using Suc.hyps(1) [OF i(2)] i(1) by simp
  finally show ?case .
qed

lemma counter_nexts_multiples:
  assumes step: "0 < step" and fl: "set fl = {start + int i * step | i. i < j}"
  shows "\<exists>fl'. counter_nexts k start step fl = Some (map (\<lambda>i. start + int (j + i) * step) [0..<k], fl') \<and>
           set fl' = {start + int i * step | i. i < j + k}"
  using fl
proof (induction k arbitrary: j fl)
  case 0
  then show ?case by simp
next
  case (Suc k)
  have c: "counter_current fl start step = Some (start + int j * step)"
    using counter_current_multiples [OF step Suc.prems, of 0] by simp
  have nf: "start + int j * step \<notin> set fl"
  proof
    assume "start + int j * step \<in> set fl"
    then obtain i' where "start + int j * step = start + int i' * step" "i' < j" using Suc.prems by auto
    then show False using step by simp
  qed
  let ?fl1 = "(start + int j * step) # fl"
  have n: "counter_next start step fl = Some (start + int j * step, ?fl1)"
    using c nf by (simp add: counter_next_def flag_read_set_def flag_read_def)
  have "set ?fl1 = {start + int i * step | i. i < Suc j}"
    using Suc.prems by (auto simp: less_Suc_eq)
  then obtain fl' where r: "counter_nexts k start step ?fl1 = Some (map (\<lambda>i. start + int (Suc j + i) * step) [0..<k], fl')"
      "set fl' = {start + int i * step | i. i < Suc j + k}"
    using Suc.IH by blast
  have "map (\<lambda>i. start + int (j + i) * step) [0..<Suc k] =
      (start + int j * step) # map (\<lambda>i. start + int (Suc j + i) * step) [0..<k]"
    by (simp add: map_upt_Suc del: upt_Suc)
  with n r show ?case by auto
qed

section \<open>Properties\<close>

text \<open>Claim C11: With a positive step the walk of CheckerWrapper ends for every
  state of the flags: Count() and Next() always produce a value.\<close>

theorem counter_current_terminates:
  assumes "0 < step"
  shows "\<exists>n. counter_current fl start step = Some n"
proof -
  have "\<exists>n. counter_current fl m step = Some n"
    if "card {x \<in> set fl. m \<le> x} = c" for c m
    using that
  proof (induction c arbitrary: m rule: less_induct)
    case (less c)
    show ?case
    proof (cases "flag_read fl m")
      case False
      then show ?thesis by (simp add: counter_current_clear)
    next
      case True
      have "{x \<in> set fl. m + step \<le> x} \<subseteq> {x \<in> set fl. m \<le> x}" using assms by auto
      moreover have "m \<in> {x \<in> set fl. m \<le> x}" "m \<notin> {x \<in> set fl. m + step \<le> x}"
        using True assms by (auto simp: flag_read_def)
      ultimately have "{x \<in> set fl. m + step \<le> x} \<subset> {x \<in> set fl. m \<le> x}" by blast
      then have "card {x \<in> set fl. m + step \<le> x} < c"
        using psubset_card_mono [of "{x \<in> set fl. m \<le> x}"] less.prems by simp
      then obtain n where "counter_current fl (m + step) step = Some n" using less.IH by blast
      with True show ?thesis by (simp add: counter_current_set)
    qed
  qed
  then show ?thesis by blast
qed

theorem counter_current_terminates_witness:
  "(0::int) < 2 \<and> (\<exists>n. counter_current [0, 2, 4] 0 2 = Some n)"
  using counter_current_terminates [of 2 "[0, 2, 4]" 0] by simp

text \<open>Claim C12: With step 0 the walk never ends once the start flag is set:
  the second Next() of a counter with Step = 0 does not compile.\<close>

theorem counter_step_zero_diverges:
  assumes "flag_read fl start"
  shows "counter_current fl start 0 = None"
proof (rule ccontr)
  assume "counter_current fl start 0 \<noteq> None"
  then obtain r where r: "counter_current fl start 0 = Some r" by blast
  have "step = 0 \<longrightarrow> \<not> flag_read fl n" if "counter_current fl n step = Some r" for n step r
  proof (rule counter_current.raw_induct [where P = "\<lambda>fl n step r. step = 0 \<longrightarrow> \<not> flag_read fl n", OF _ that])
    fix f fl n step r
    assume IH: "\<And>fl n step r. f fl n step = Some r \<Longrightarrow> step = 0 \<longrightarrow> \<not> flag_read fl n"
      and eq: "(if flag_read fl n then f fl (n + step) step else Some n) = Some r"
    show "step = 0 \<longrightarrow> \<not> flag_read fl n"
    proof
      assume s: "step = 0"
      show "\<not> flag_read fl n"
      proof
        assume fn: "flag_read fl n"
        with eq s have "f fl n step = Some r" by simp
        with IH s fn show False by blast
      qed
    qed
  qed
  with r assms show False by blast
qed

theorem counter_step_zero_diverges_witness:
  "flag_read [5] 5 \<and> counter_current [5] 5 0 = None"
  using counter_step_zero_diverges [of "[5]" 5] by (simp add: flag_read_def)

text \<open>Claim C24: On a fresh tag with a positive step, k successive Next() calls
  return Start, Start + Step, ..., Start + (k - 1) * Step, after which Count()
  is Start + k * Step.\<close>

theorem counter_nexts_sequence:
  assumes "0 < step"
  shows "\<exists>fl. counter_nexts k start step [] = Some (map (\<lambda>i. start + int i * step) [0..<k], fl) \<and>
           counter_count start step fl = Some (start + int k * step)"
proof -
  obtain fl where r: "counter_nexts k start step [] = Some (map (\<lambda>i. start + int (0 + i) * step) [0..<k], fl)"
      "set fl = {start + int i * step | i. i < 0 + k}"
    using counter_nexts_multiples [OF assms, of "[]" start 0 k] by auto
  have "counter_count start step fl = Some (start + int k * step)"
    using counter_current_multiples [OF assms r(2), of 0] by (simp add: counter_count_def)
  with r(1) show ?thesis by auto
qed

theorem counter_nexts_sequence_witness:
  "(0::int) < 1 \<and> counter_nexts 3 10 1 [] = Some ([10, 11, 12], projr (Inr (snd (the (counter_nexts 3 10 1 [])))))"
proof -
  obtain fl where "counter_nexts 3 10 1 [] = Some (map (\<lambda>i. 10 + int i * 1) [0..<3], fl)"
    using counter_nexts_sequence [of 1 3 10] by auto
  then show ?thesis by (simp add: upt_rec)
qed

end
