(* ===== verification/Spec2Isabelle.thy ===== *)
theory Spec2Isabelle
  imports CompQuery AnyStructArrayBP AnyStruct MPSort ConstexprCounter
begin

text \<open>
  \<^bold>\<open>A verification library for the ECSUtils archetype storage engine.\<close>

  The program (\<open>src/Plugins/ECSUtils\<close>) stores entities as columns of
  archetypes: an archetype (\<open>Types/Archetype.h\<close>, \<open>FArchetype\<close>) holds one raw
  buffer per component type and a bit mask of the columns that are live; the
  subsystem (\<open>ECSSubsystem.h/.cpp\<close>, \<open>UECSSubsystem\<close>) registers the component
  and tag types, finds or creates the archetype of a signature, spawns and
  destroys entities through a sparse entity index, and queries
  (\<open>Types/CompQuery.h\<close>) visit the live columns of every archetype whose
  signature includes the query's.  \<open>FAnyStruct\<close> and \<open>FAnyStructArray\<close>
  (\<open>Types/AnyStruct.h\<close>, \<open>Types/AnyStructArray.h\<close>) are the type-erased value
  and array.

  \<^bold>\<open>Theories.\<close>
  \<^item> \<open>ECS_Prelude\<close>: the fault type standing for every \<open>check\<close>/\<open>checkf\<close>
    (results are \<open>fault + 'a\<close>), the raw-buffer model of \<open>FMemory\<close> and of the
    \<open>UScriptStruct\<close> construct/destroy/copy operations (a buffer is a list of
    slots, each \<open>Live v\<close> or \<open>Uninit\<close>; destroying a dead slot or touching a
    slot outside the buffer is a fault), and the type descriptor record.
  \<^item> \<open>Bitmask\<close>: the masks as lists of \<open>64 word\<close> (\<open>FBitElem\<close> on 64-bit
    platforms), with the single-bit read/write of \<open>Archetype.h\<close>, the
    population count of \<open>GetCompRow\<close>, the word-wise subset loop of
    \<open>HasSameSetIdentifierFlags\<close>, the byte-wise \<open>Memcmp\<close> (little endian) and
    \<open>_BitScanForward64\<close>; each is proved equal to its bit-level meaning.
  \<^item> \<open>Archetype\<close>: \<open>FArchetype\<close> as a record (\<open>num_rows\<close>, \<open>num_columns\<close>,
    \<open>init_mask\<close>, \<open>comp_mask\<close>, \<open>rows\<close>) with one definition per method
    (\<open>arch_new\<close>, \<open>add_uninitialized\<close>, \<open>add_at_first_uninitialized\<close>,
    \<open>add_defaulted\<close>, \<open>destruct_at\<close>, \<open>get_comp_row\<close>,
    \<open>find_first_uninitialized_row\<close>, \<open>has_same_set_identifier_flags\<close>,
    \<open>arch_get\<close>, \<open>arch_destroy\<close>).  The invariant \<open>arch_inv\<close> says the mask
    and every row buffer have \<open>NumColumns\<close> slots and a column is live in the
    mask exactly when its slot is live in every row.  The properties: each
    adding and destroying operation keeps the invariant and has the effect the
    spec describes (first hole reused before growing, destroyed columns stay
    allocated), \<open>GetCompRow\<close> is a population count, the subset loop is bit
    inclusion; and \<open>FindFirstUninitializedRow\<close> searches for live bits.

  \<^item> \<open>EntityIndex\<close>: the engine's \<open>TSparseArray\<close> of entity records, modelled
    from the spec as a list of optional records; \<open>EmplaceAtLowestFreeIndex\<close>
    reuses the lowest free index, \<open>RemoveAt\<close> frees one.
  \<^item> \<open>TypeRegistry\<close>: \<open>RegisterComponentsAndTags\<close> (\<open>ECSSubsystem.cpp\<close>) sorts
    the component descriptions by (size, unique id) and the tags by unique id;
    \<open>FindCompTypeID\<close>/\<open>FindTagTypeID\<close> are \<open>Algo::BinarySearchBy\<close> over them
    (\<open>lower_bound_loop\<close>, a \<open>function\<close> whose termination measure is the size
    of the search window).  Proved: the binary search equals a linear search
    on a strictly sorted registry, and every registered type is found at its
    index.
  \<^item> \<open>ECSSubsystem\<close>: the \<open>UECSSubsystem\<close> state (\<open>ecs_state\<close>: entity records,
    registries, archetypes) and its operations: \<open>internal_find_archetype_id\<close>
    (signature mask, \<open>Memcmp\<close> search, creation with rows sorted by size and
    the per-type archetype references), \<open>spawn_entity\<close>,
    \<open>spawn_entity_emplace\<close> (spawn with arguments), \<open>destroy_entity\<close>,
    \<open>entity_has_comp\<close>/\<open>entity_has_tag\<close>, \<open>get_entity_comp\<close>,
    \<open>find_archetype_id\<close>, and the registration step of \<open>Initialize\<close>
    (\<open>ecs_registered\<close>).  Proved: a spawn with arguments faults on every
    well-formed archetype whose columns 0 and 1 are live (the spawns of
    \<open>Initialize\<close> reach that state at the third spawn), and
    \<open>FindArchetypeID\<close> returns \<open>INDEX_NONE\<close> whenever its checks pass.
  \<^item> \<open>SubsystemInvariant\<close>: \<open>ecs_inv\<close> (sorted registry, every archetype
    well-formed with its rows the registered types of its signature in id
    order, every entity record naming a distinct live column) is established
    by registration and kept by spawning and destroying; entity ids are the
    lowest free index and are reused; \<open>GetCompRow\<close> finds the row of the
    requested type, so \<open>GetEntityComp\<close> reads the right slot.  The theorem on
    default values assumes at most eight component and tag types, the bound
    under which the \<open>Memcmp\<close> of \<open>DivideAndRoundUp(NumRows, 8)\<close> bytes compares
    every signature bit (see the findings).
  \<^item> \<open>AnyStructArray\<close>: \<open>FAnyStructArray\<close> as a record (pointer that is null,
    a buffer of slots, or indeterminate; type; count) with one definition per
    constructor, assignment and method.  Assignments act on a store of arrays
    (\<open>asa_store\<close>) so that self assignment is modelled as the aliasing it is.
    \<open>asa_inv\<close> and \<open>asa_elems\<close> abstract an array to the spec's list of values;
    \<open>arr_spec\<close> is the spec's contract and \<open>asa_run_refines\<close> proves that every
    sequence of the adding, inserting, removing and emptying methods refines
    it.  Other theorems: bounds of \<open>Get\<close>, equality, \<open>Make\<close>/\<open>ForEach\<close> round
    trip, a fault-free destructor, and five defects.
  \<^item> \<open>AnyStruct\<close>: \<open>FAnyStruct\<close> (one slot and a type), its constructors,
    assignments (on a store), equality, \<open>Set\<close> variants, \<open>Get\<close>, and
    \<open>Serialize\<close>/\<open>NetSerialize\<close> over an archive of items (the reflective
    property walk of \<open>NetSerializeStructProps\<close> transfers the whole value).
    Proved: every operation on a well-formed value has its contract's
    result, equality is equality of type and contents, \<open>Get\<close> is type safe,
    both serializations round-trip, and self assignment resets the value.
  \<^item> \<open>CompQuery\<close>: \<open>TCompQuery::ForEach\<close> (\<open>query_for_each\<close>): the query
    archetype from \<open>GetArchetypeID\<close> (\<open>internal_find_archetype_id\<close>, which may
    register it), selection of every archetype by \<open>HasSameSetIdentifierFlags\<close>,
    \<open>ForEachInitializedColumn\<close> and \<open>InternalGetComp\<close>; the functor is a fold
    over the argument lists it receives (\<open>query_call\<close>), so a recording
    functor exposes the sequence of calls.  Proved: \<open>InternalFindArchetypeID\<close>
    and \<open>InternalSpawnEntity\<close> cannot fault on a well-formed subsystem
    (progress); \<open>ForEach\<close> never faults, keeps the invariant and hands the
    functor live slots of the requested types (safety of the unchecked cast);
    it visits every entity of a selected archetype with the components
    \<open>GetEntityComp\<close> returns (completeness).  The two \<open>ForEach\<close> theorems
    assume at most eight signature bits, the bound under which the
    archetype search compares every bit.

  \<^item> \<open>AnyStructArrayBP\<close>: the Blueprint thunks of \<open>AnyStructArrayBPUtils.h\<close>
    (\<open>bp_make\<close>, \<open>bp_add\<close>, \<open>bp_append\<close>, \<open>bp_get\<close>, \<open>bp_num\<close>) over the
    array model, with the two pin tests of its macros; a failed test is the
    Blueprint context failure \<open>Inr None\<close>.  Proved: \<open>Get\<close> and \<open>Add\<close> with a
    pin of the array's own type are the contract's read and append (the latter
    a refinement of the contract's add); \<open>Make\<close> faults on its default
    return value; a child-typed array copies past a parent-typed pin.
  \<^item> \<open>MPSort\<close>: the compile-time quicksort of \<open>Metaprogramming/MPSort.h\<close> over
    integer packs as lists (\<open>composed_sort\<close>, a \<open>function\<close> terminating by the
    pack length), its composed comparators and \<open>TSortByIDs\<close>; it permutes its
    input for every comparator pack and with \<open>less_than\<close> equals \<open>sort\<close>.
  \<^item> \<open>ConstexprCounter\<close>: \<open>TConstexprCounter\<close> of
    \<open>Metaprogramming/ConstexprCounter.h\<close>; the friend-injected flags of a tag
    are the list of values whose flag is set, and the \<open>CheckerWrapper\<close> walk is
    a \<open>partial_function (option)\<close> (\<open>None\<close>: the template recursion does not
    end).  Proved: the walk terminates for every positive step (by induction
    on the number of set flags above the start), diverges for step 0 once the
    start is set, and successive \<open>Next()\<close> calls count up by the step.

  \<^bold>\<open>Defects shown.\<close>
  \<open>FindFirstUninitializedRow\<close> scans for live bits, so a spawn with
  arguments faults once columns 0 and 1 of its archetype are live; the
  archetype search compares only \<open>DivideAndRoundUp(NumRows, 8)\<close> bytes of
  the signatures (modelled as written; the theorems that need every bit
  assume at most eight signature bits);
  \<open>FindArchetypeID\<close> never finds anything; \<open>FAnyStructArray\<close>'s
  \<open>SetNum\<close> never yields a well-formed array, \<open>Resize\<close> swaps \<open>Malloc\<close> and
  \<open>Realloc\<close>, \<open>Append(ArrayView)\<close> indexes the view from the old count, copy
  assignment to itself empties the array, the copy constructor with count 0
  leaves the pointer indeterminate, and empty arrays of different types compare
  equal; \<open>FAnyStruct\<close>'s self assignment resets the value to the default;
  the Blueprint \<open>Make\<close> thunk tests its unconstructed return value, \<open>Append\<close>
  uses the pin's property descriptor as the array, and the pin type test lets
  a larger child type copy past the pin; a constexpr counter with step 0
  never finishes its second \<open>Next()\<close>.

  \<^bold>\<open>Modelling choices.\<close>
  Indices are \<open>int\<close> where the code takes \<open>int32\<close> arguments (so that
  \<open>INDEX_NONE\<close> and negative values reach the checks); counts are \<open>nat\<close>.
  Overflow of \<open>int32\<close> counts is not modelled (the counts are bounded by
  memory).  The words a \<open>Realloc\<close> of the live mask adds are taken as zero;
  the clearing loop of \<open>AddUninitialized\<close> overwrites all of them whenever
  columns grow by a multiple of 64, which is the subsystem's chunk.  \<open>ForEach\<close> is a const method, but the subsystem's archetype array is
  \<open>mutable\<close>: the model returns the subsystem after the query, with the
  archetype it may have registered.  Pointer
  identity of type descriptors is equality of the descriptor record.
  Memory is modelled in element slots, not bytes: every offset of the code is
  an index times the structure size.  Archives are item lists: a loading
  archive with a missing item sets its error flag, as \<open>FArchive\<close> does.

  \<^bold>\<open>Not modelled.\<close>
  Garbage-collector reference reporting (\<open>AddStructReferencedObjects\<close>:
  no state of the program changes); the stepping of the Blueprint VM stack
  that yields a thunk's pins (the model starts from the pins' values and
  property structs); the type-level headers \<open>Conditional.h\<close> and
  \<open>Utilities/Metaprogramming.h\<close> (type lists, \<open>static_assert\<close>s and type
  selection with no values: the model takes their packs as lists of script
  structs) and \<open>TSequenceToTuple\<close> of \<open>MPSort.h\<close>; the \<open>int32\<close> range of
  the counter's template arguments; writes a query functor makes through its
  references (the functor is modelled by the argument lists it receives); the
  debug string of \<open>ECSSubsystem.cpp\<close>; and the engine actor
  \<open>ECSCharacter.h\<close>.
\<close>

end
